theory Spec2Isabelle
  imports Complex_Main
begin

section \<open>Kido gesture recogniser: the embedding\<close>

text \<open>
  The gesture classification engine of Kido (\<^verbatim>\<open>src/gesture_recognizer.py\<close>, with the
  data classes of \<^verbatim>\<open>src/hand_tracker.py\<close> and the constants of \<^verbatim>\<open>src/config.py\<close>).

  Python floats are modelled as \<^typ>\<open>real\<close>: a real stands for a finite double, and
  rounding, infinities and NaN are outside the model. The one float operation of the
  source that raises, the power \<^verbatim>\<open>** 2\<close> of \<^verbatim>\<open>_dist3\<close>, is modelled with its
  \<^verbatim>\<open>OverflowError\<close>; float addition, subtraction, division, \<^verbatim>\<open>math.sqrt\<close> of a sum of
  squares and \<^verbatim>\<open>math.hypot\<close> never raise. The instance attributes lose their leading
  underscore. The two readings of \<^verbatim>\<open>time.perf_counter()\<close> that one
  call of \<^verbatim>\<open>update\<close> makes (one in \<^verbatim>\<open>_classify\<close>, one before the history push) are
  parameters of the model. Every subscript and every division of the source is a
  branch that can return an error.
\<close>

subsection \<open>config.py\<close>

definition GESTURE_CONFIDENCE_FRAMES :: int where
  "GESTURE_CONFIDENCE_FRAMES = 3"

definition ORBIT_DEAD_ZONE :: real where
  "ORBIT_DEAD_ZONE = 0.015"

definition ZOOM_SPEED_THRESHOLD :: real where
  "ZOOM_SPEED_THRESHOLD = 0.8"

definition EMA_ALPHA :: real where
  "EMA_ALPHA = 0.45"

subsection \<open>Python errors, subscripts and division\<close>

datatype error = IndexError | ZeroDivisionError | TypeError | OverflowError

definition getitem :: "'a list \<Rightarrow> nat \<Rightarrow> error + 'a" where
  "getitem xs i = (if i < length xs then Inr (xs ! i) else Inl IndexError)"

definition truediv :: "real \<Rightarrow> real \<Rightarrow> error + real" where
  "truediv a b = (if b = 0 then Inl ZeroDivisionError else Inr (a / b))"

text \<open>
  The float power \<^verbatim>\<open>v ** 2\<close>. CPython raises \<^verbatim>\<open>OverflowError\<close> when the base is finite
  and the result is an infinity, that is when the square is at or beyond
  \<open>2^1024 - 2^970\<close>, the least real that rounds to an infinity. A base at or beyond that
  bound is itself an infinity already (the subtraction that produced it overflowed), and
  the power of an infinity is an infinity without an error: there the model returns too,
  with the real square as an idealised value.
\<close>

definition DBL_OVERFLOW :: real where
  "DBL_OVERFLOW = 2 ^ 1024 - 2 ^ 970"

definition sq_overflows :: "real \<Rightarrow> bool" where
  "sq_overflows v \<longleftrightarrow> \<bar>v\<bar> < DBL_OVERFLOW \<and> DBL_OVERFLOW \<le> v\<^sup>2"

definition float_sq :: "real \<Rightarrow> error + real" where
  "float_sq v = (if sq_overflows v then Inl OverflowError else Inr (v\<^sup>2))"

text \<open>The list comprehension \<^verbatim>\<open>[xs[i] for i in ids]\<close>.\<close>

fun getitems :: "'a list \<Rightarrow> nat list \<Rightarrow> error + 'a list" where
  "getitems xs [] = Inr []"
| "getitems xs (i # ids) =
     (case getitem xs i of
        Inl e \<Rightarrow> Inl e
      | Inr v \<Rightarrow> (case getitems xs ids of Inl e \<Rightarrow> Inl e | Inr vs \<Rightarrow> Inr (v # vs)))"

subsection \<open>hand_tracker.py\<close>

datatype Landmark = Landmark (lm_x: real) (lm_y: real) (lm_z: real)

record HandData =
  landmarks :: "Landmark list"
  handedness :: string
  timestamp :: real

definition fingertip_center :: "HandData \<Rightarrow> error + (real \<times> real \<times> real)" where
  "fingertip_center hand =
     (case getitems (landmarks hand) [4, 8, 12, 16, 20] of
        Inl e \<Rightarrow> Inl e
      | Inr tips \<Rightarrow>
          Inr (sum_list (map lm_x tips) / 5,
               sum_list (map lm_y tips) / 5,
               sum_list (map lm_z tips) / 5))"

subsection \<open>gesture_recognizer.py\<close>

datatype Gesture = IDLE | ORBIT | ZOOM_IN | ZOOM_OUT

record GestureRecogniser =
  smooth_x :: "real option"
  smooth_y :: "real option"
  smooth_z :: "real option"
  prev_x :: "real option"
  prev_y :: "real option"
  openness_history :: "(real \<times> real) list"
  last_openness :: "real option"
  last_openness_time :: real
  gesture_streak :: int
  current_gesture :: Gesture
  candidate :: Gesture
  last_zoom_time :: real
  zoom_end_time :: real

text \<open>\<^verbatim>\<open>self._ORBIT_AFTER_ZOOM_COOLDOWN\<close> is set once in the constructor and never written again.\<close>

definition ORBIT_AFTER_ZOOM_COOLDOWN :: real where
  "ORBIT_AFTER_ZOOM_COOLDOWN = 0.3"

text \<open>\<^verbatim>\<open>GestureRecogniser.__init__\<close>.\<close>

definition init :: GestureRecogniser where
  "init = \<lparr> smooth_x = None, smooth_y = None, smooth_z = None,
            prev_x = None, prev_y = None,
            openness_history = [],
            last_openness = None, last_openness_time = 0,
            gesture_streak = 0, current_gesture = IDLE, candidate = IDLE,
            last_zoom_time = 0, zoom_end_time = 0 \<rparr>"

text \<open>\<^verbatim>\<open>deque(maxlen=10).append\<close>: a full deque drops its oldest entry.\<close>

definition deque_append :: "'a list \<Rightarrow> 'a \<Rightarrow> 'a list" where
  "deque_append d v = (if length d < 10 then d @ [v] else tl d @ [v])"

text \<open>\<^verbatim>\<open>_set_gesture\<close>: the updated recogniser and the returned (confirmed) gesture.\<close>

definition set_gesture :: "GestureRecogniser \<Rightarrow> Gesture \<Rightarrow> GestureRecogniser \<times> Gesture" where
  "set_gesture self g =
     (let self1 = (if g = candidate self
                   then self\<lparr>gesture_streak := gesture_streak self + 1\<rparr>
                   else self\<lparr>candidate := g, gesture_streak := 1\<rparr>);
          self2 = (if gesture_streak self1 \<ge> GESTURE_CONFIDENCE_FRAMES
                   then self1\<lparr>current_gesture := g\<rparr>
                   else self1)
      in (self2, current_gesture self2))"

text \<open>\<^verbatim>\<open>_dist3\<close>: each of the three squares can raise.\<close>

definition dist3 :: "Landmark \<Rightarrow> Landmark \<Rightarrow> error + real" where
  "dist3 a b =
     (case float_sq (lm_x a - lm_x b) of
        Inl e \<Rightarrow> Inl e
      | Inr sx \<Rightarrow>
          (case float_sq (lm_y a - lm_y b) of
             Inl e \<Rightarrow> Inl e
           | Inr sy \<Rightarrow>
               (case float_sq (lm_z a - lm_z b) of
                  Inl e \<Rightarrow> Inl e
                | Inr sz \<Rightarrow> Inr (sqrt (sx + sy + sz)))))"

text \<open>\<^verbatim>\<open>math.hypot\<close> of two arguments.\<close>

definition hypot :: "real \<Rightarrow> real \<Rightarrow> real" where
  "hypot a b = sqrt (a\<^sup>2 + b\<^sup>2)"

text \<open>
  The loop of \<^verbatim>\<open>_hand_openness\<close> over \<^verbatim>\<open>zip(tip_ids, mcp_ids)\<close>, with the list
  \<^verbatim>\<open>ratios\<close> as accumulator.
\<close>

fun openness_loop ::
  "Landmark list \<Rightarrow> Landmark \<Rightarrow> (nat \<times> nat) list \<Rightarrow> real list \<Rightarrow> error + real list" where
  "openness_loop lms wrist [] ratios = Inr ratios"
| "openness_loop lms wrist ((tip_i, mcp_i) # rest) ratios =
     (case getitem lms tip_i of
        Inl e \<Rightarrow> Inl e
      | Inr tip \<Rightarrow>
          (case getitem lms mcp_i of
             Inl e \<Rightarrow> Inl e
           | Inr mcp \<Rightarrow>
               (case dist3 tip wrist of
                  Inl e \<Rightarrow> Inl e
                | Inr d_tip \<Rightarrow>
                    (case dist3 mcp wrist of
                       Inl e \<Rightarrow> Inl e
                     | Inr d_mcp \<Rightarrow>
                         if d_mcp < 0.000001 then openness_loop lms wrist rest ratios
                         else (case truediv d_tip d_mcp of
                                 Inl e \<Rightarrow> Inl e
                               | Inr r \<Rightarrow> openness_loop lms wrist rest (ratios @ [r]))))))"

definition hand_openness :: "HandData \<Rightarrow> error + real" where
  "hand_openness hand =
     (case getitem (landmarks hand) 0 of
        Inl e \<Rightarrow> Inl e
      | Inr wrist \<Rightarrow>
          (case openness_loop (landmarks hand) wrist
                  (zip [4, 8, 12, 16, 20] [2, 5, 9, 13, 17]) [] of
             Inl e \<Rightarrow> Inl e
           | Inr ratios \<Rightarrow>
               if ratios = [] then Inr 0
               else (case truediv (sum_list ratios) (real (length ratios)) of
                       Inl e \<Rightarrow> Inl e
                     | Inr avg \<Rightarrow> Inr (max 0 (min 1 ((avg - 0.6) / 1))))))"

text \<open>\<^verbatim>\<open>_openness_speed\<close>; \<^verbatim>\<open>h[0]\<close> and \<^verbatim>\<open>h[-1]\<close> raise on an empty deque.\<close>

definition openness_speed :: "GestureRecogniser \<Rightarrow> error + real option" where
  "openness_speed self =
     (let h = openness_history self
      in if length h < 4 then Inr None
         else (case getitem h 0 of
                 Inl e \<Rightarrow> Inl e
               | Inr (t0, o0) \<Rightarrow>
                   (case getitem h (length h - 1) of
                      Inl e \<Rightarrow> Inl e
                    | Inr (t1, o1) \<Rightarrow>
                        (let dt = t1 - t0
                         in if dt < 0.05 then Inr None
                            else (case truediv (o1 - o0) dt of
                                    Inl e \<Rightarrow> Inl e
                                  | Inr v \<Rightarrow> Inr (Some v))))))"

text \<open>
  \<^verbatim>\<open>_ema\<close>: only \<^verbatim>\<open>_smooth_x\<close> is tested against \<^verbatim>\<open>None\<close>; arithmetic on an unset
  \<^verbatim>\<open>_smooth_y\<close> or \<^verbatim>\<open>_smooth_z\<close> would raise \<^verbatim>\<open>TypeError\<close>.
\<close>

definition ema ::
  "GestureRecogniser \<Rightarrow> real \<Rightarrow> real \<Rightarrow> real \<Rightarrow> error + (GestureRecogniser \<times> real \<times> real \<times> real)" where
  "ema self x y z =
     (let a = EMA_ALPHA
      in case smooth_x self of
           None \<Rightarrow> Inr (self\<lparr>smooth_x := Some x, smooth_y := Some y, smooth_z := Some z\<rparr>, x, y, z)
         | Some px \<Rightarrow>
             (case smooth_y self of
                None \<Rightarrow> Inl TypeError
              | Some py \<Rightarrow>
                  (case smooth_z self of
                     None \<Rightarrow> Inl TypeError
                   | Some pz \<Rightarrow>
                       (let nx = a * x + (1 - a) * px;
                            ny = a * y + (1 - a) * py;
                            nz = a * z + (1 - a) * pz
                        in Inr (self\<lparr>smooth_x := Some nx, smooth_y := Some ny, smooth_z := Some nz\<rparr>,
                                nx, ny, nz)))))"

definition reset_smooth :: "GestureRecogniser \<Rightarrow> GestureRecogniser" where
  "reset_smooth self =
     self\<lparr>smooth_x := None, smooth_y := None, smooth_z := None,
          prev_x := None, prev_y := None, openness_history := []\<rparr>"

text \<open>\<^verbatim>\<open>return self._set_gesture(g), payload\<close>.\<close>

definition emit ::
  "GestureRecogniser \<Rightarrow> Gesture \<Rightarrow> (real \<times> real) option \<Rightarrow>
   GestureRecogniser \<times> Gesture \<times> (real \<times> real) option" where
  "emit self g payload = (case set_gesture self g of (self', cur) \<Rightarrow> (self', cur, payload))"

text \<open>
  \<^verbatim>\<open>_classify\<close> from the zoom-sustain test on (source lines 124 to 150): what runs
  when the speed did not trigger a zoom.
\<close>

definition classify_tail ::
  "GestureRecogniser \<Rightarrow> real \<Rightarrow> real \<Rightarrow> real \<Rightarrow> real \<Rightarrow> real option \<Rightarrow>
   error + (GestureRecogniser \<times> Gesture \<times> (real \<times> real) option)" where
  "classify_tail self openness sx sy now speed =
     (if current_gesture self = ZOOM_IN \<and> openness > 0.7 then Inr (emit self ZOOM_IN None)
      else if current_gesture self = ZOOM_OUT \<and> openness < 0.3 then Inr (emit self ZOOM_OUT None)
      else
        (let self1 =
               (if (current_gesture self = ZOOM_IN \<or> current_gesture self = ZOOM_OUT)
                   \<and> (case speed of None \<Rightarrow> False | Some v \<Rightarrow> \<bar>v\<bar> < ZOOM_SPEED_THRESHOLD)
                then self\<lparr>zoom_end_time := now\<rparr> else self)
         in if now - zoom_end_time self1 < ORBIT_AFTER_ZOOM_COOLDOWN
            then Inr (emit self1 IDLE None)
            else
              (case (if openness > 0.55 then prev_x self1 else None) of
                 Some px \<Rightarrow>
                   (case prev_y self1 of
                      None \<Rightarrow> Inl TypeError
                    | Some py \<Rightarrow>
                        (let dx = sx - px; dy = sy - py; dist = hypot dx dy
                         in if dist > ORBIT_DEAD_ZONE
                            then Inr (emit self1 ORBIT (Some (dx, dy)))
                            else Inr (emit self1 IDLE None)))
               | None \<Rightarrow> Inr (emit self1 IDLE None))))"

definition classify ::
  "GestureRecogniser \<Rightarrow> HandData \<Rightarrow> real \<Rightarrow> real \<Rightarrow> real \<Rightarrow> real \<Rightarrow>
   error + (GestureRecogniser \<times> Gesture \<times> (real \<times> real) option)" where
  "classify self hand openness sx sy now =
     (case openness_speed self of
        Inl e \<Rightarrow> Inl e
      | Inr speed \<Rightarrow>
          (case speed of
             Some v \<Rightarrow>
               if v > ZOOM_SPEED_THRESHOLD then Inr (emit self ZOOM_IN None)
               else if v < - ZOOM_SPEED_THRESHOLD then Inr (emit self ZOOM_OUT None)
               else classify_tail self openness sx sy now speed
           | None \<Rightarrow> classify_tail self openness sx sy now speed))"

text \<open>
  \<^verbatim>\<open>update\<close>: \<open>now_c\<close> is the clock reading of \<^verbatim>\<open>_classify\<close>, \<open>now_u\<close> the later one
  that stamps the history entry.
\<close>

definition update ::
  "GestureRecogniser \<Rightarrow> HandData option \<Rightarrow> real \<Rightarrow> real \<Rightarrow>
   error + (GestureRecogniser \<times> Gesture \<times> (real \<times> real) option)" where
  "update self hand now_c now_u =
     (case hand of
        None \<Rightarrow> Inr (emit (reset_smooth self) IDLE None)
      | Some h \<Rightarrow>
          (case hand_openness h of
             Inl e \<Rightarrow> Inl e
           | Inr openness \<Rightarrow>
               (case fingertip_center h of
                  Inl e \<Rightarrow> Inl e
                | Inr (cx, cy, cz) \<Rightarrow>
                    (case ema self cx cy cz of
                       Inl e \<Rightarrow> Inl e
                     | Inr (self1, sx, sy, sz) \<Rightarrow>
                         (case classify self1 h openness sx sy now_c of
                            Inl e \<Rightarrow> Inl e
                          | Inr (self2, gesture, payload) \<Rightarrow>
                              Inr (self2\<lparr>prev_x := Some sx, prev_y := Some sy,
                                         openness_history :=
                                           deque_append (openness_history self2) (now_u, openness),
                                         last_openness := Some openness,
                                         last_openness_time := now_u\<rparr>,
                                   gesture, payload))))))"

section \<open>Runs, reachable states and specification-level notions\<close>

text \<open>
  The caller (\<^verbatim>\<open>main.py\<close>) feeds one snapshot, or \<^verbatim>\<open>None\<close>, per tick. A tick of the
  model carries the snapshot and the two clock readings of that call.
\<close>

type_synonym tick = "HandData option \<times> real \<times> real"
type_synonym outcome = "Gesture \<times> (real \<times> real) option"

fun run :: "GestureRecogniser \<Rightarrow> tick list \<Rightarrow> error + (GestureRecogniser \<times> outcome list)" where
  "run self [] = Inr (self, [])"
| "run self ((hand, now_c, now_u) # ticks) =
     (case update self hand now_c now_u of
        Inl e \<Rightarrow> Inl e
      | Inr (self', g, p) \<Rightarrow>
          (case run self' ticks of
             Inl e \<Rightarrow> Inl e
           | Inr (self'', outs) \<Rightarrow> Inr (self'', (g, p) # outs)))"

inductive reachable :: "GestureRecogniser \<Rightarrow> bool" where
  reachable_init: "reachable init"
| reachable_update: "reachable s \<Longrightarrow> update s hand now_c now_u = Inr (s', g, p) \<Longrightarrow> reachable s'"

definition unset_together :: "GestureRecogniser \<Rightarrow> bool" where
  "unset_together s \<longleftrightarrow>
     (prev_x s = None \<longleftrightarrow> prev_y s = None)
     \<and> (smooth_x s = None \<longleftrightarrow> smooth_y s = None)
     \<and> (smooth_y s = None \<longleftrightarrow> smooth_z s = None)"

definition fingers :: "(nat \<times> nat) list" where
  "fingers = [(4, 2), (8, 5), (12, 9), (16, 13), (20, 17)]"

text \<open>
  The snapshots on which \<^verbatim>\<open>_dist3\<close> raises: a tip or a knuckle has a coordinate
  difference to the wrist whose square overflows.
\<close>

definition dist_overflows :: "Landmark \<Rightarrow> Landmark \<Rightarrow> bool" where
  "dist_overflows a b \<longleftrightarrow>
     sq_overflows (lm_x a - lm_x b) \<or> sq_overflows (lm_y a - lm_y b)
     \<or> sq_overflows (lm_z a - lm_z b)"

definition overflows :: "Landmark list \<Rightarrow> bool" where
  "overflows lms \<longleftrightarrow>
     list_ex (\<lambda>f. dist_overflows (lms ! fst f) (lms ! 0) \<or> dist_overflows (lms ! snd f) (lms ! 0))
       fingers"

text \<open>A complete snapshot: at least 21 landmarks, and no distance to the wrist overflows.\<close>

definition complete :: "HandData \<Rightarrow> bool" where
  "complete h \<longleftrightarrow> 21 \<le> length (landmarks h) \<and> \<not> overflows (landmarks h)"

definition well_formed :: "HandData option \<Rightarrow> bool" where
  "well_formed hand = (case hand of None \<Rightarrow> True | Some h \<Rightarrow> complete h)"

definition outputs :: "error + (GestureRecogniser \<times> outcome list) \<Rightarrow> outcome list option" where
  "outputs r = (case r of Inl e \<Rightarrow> None | Inr (s, outs) \<Rightarrow> Some outs)"

text \<open>
  The openness estimator as the specification words it. \<open>distance3\<close> is the Euclidean
  distance of two landmarks (specification 4.1), written here on its own and not taken
  from the code. The estimator takes the per-finger ratios
  \<open>dist(tip, wrist) / dist(knuckle, wrist)\<close> of the fingers whose knuckle is at least
  \<open>1e-6\<close> from the wrist, their mean mapped from [0.6, 1.6] onto [0, 1] and clamped.
\<close>

definition distance3 :: "Landmark \<Rightarrow> Landmark \<Rightarrow> real" where
  "distance3 a b =
     sqrt ((lm_x a - lm_x b) * (lm_x a - lm_x b) + (lm_y a - lm_y b) * (lm_y a - lm_y b)
           + (lm_z a - lm_z b) * (lm_z a - lm_z b))"

definition finger_ratio :: "Landmark list \<Rightarrow> nat \<times> nat \<Rightarrow> real" where
  "finger_ratio lms f = distance3 (lms ! fst f) (lms ! 0) / distance3 (lms ! snd f) (lms ! 0)"

definition surviving :: "Landmark list \<Rightarrow> (nat \<times> nat) list" where
  "surviving lms = filter (\<lambda>f. distance3 (lms ! snd f) (lms ! 0) \<ge> 0.000001) fingers"

definition clamp01 :: "real \<Rightarrow> real" where
  "clamp01 v = (if v < 0 then 0 else if v > 1 then 1 else v)"

definition openness_spec :: "Landmark list \<Rightarrow> real" where
  "openness_spec lms =
     (if surviving lms = [] then 0
      else clamp01 ((sum_list (map (finger_ratio lms) (surviving lms))
                      / real (length (surviving lms)) - 0.6) / 1.0))"

text \<open>Feeding candidates straight into the hysteresis filter.\<close>

fun feed :: "GestureRecogniser \<Rightarrow> Gesture list \<Rightarrow> GestureRecogniser" where
  "feed self [] = self"
| "feed self (g # gs) = feed (fst (set_gesture self g)) gs"

fun feed_out :: "GestureRecogniser \<Rightarrow> Gesture list \<Rightarrow> Gesture list" where
  "feed_out self [] = []"
| "feed_out self (g # gs) = snd (set_gesture self g) # feed_out (fst (set_gesture self g)) gs"

text \<open>The number of trailing entries of a feed that equal a gesture.\<close>

definition trailing :: "Gesture \<Rightarrow> Gesture list \<Rightarrow> nat" where
  "trailing g gs = length (takeWhile (\<lambda>x. x = g) (rev gs))"

section \<open>Properties of the stages\<close>

subsection \<open>Subscripts, division and the speed detector\<close>

lemma getitem_in: "i < length xs \<Longrightarrow> getitem xs i = Inr (xs ! i)"
  by (simp add: getitem_def)

lemma truediv_nz: "b \<noteq> 0 \<Longrightarrow> truediv a b = Inr (a / b)"
  by (simp add: truediv_def)

lemma openness_speed_eq:
  "openness_speed self =
     Inr (if length (openness_history self) < 4
             \<or> fst (last (openness_history self)) - fst (hd (openness_history self)) < 0.05
          then None
          else Some ((snd (last (openness_history self)) - snd (hd (openness_history self)))
                     / (fst (last (openness_history self)) - fst (hd (openness_history self)))))"
proof (cases "length (openness_history self) < 4")
  case True
  then show ?thesis by (simp add: openness_speed_def)
next
  case False
  define h where "h = openness_history self"
  from False have ne: "h \<noteq> []" and len: "0 < length h" by (auto simp: h_def)
  have g0: "getitem h 0 = Inr (hd h)"
    using ne len by (simp add: getitem_in hd_conv_nth)
  have g1: "getitem h (length h - 1) = Inr (last h)"
    using ne len by (simp add: getitem_in last_conv_nth)
  show ?thesis
    using False g0 g1
    by (simp add: openness_speed_def h_def[symmetric] Let_def truediv_def split: prod.split)
qed

subsection \<open>What the filter writes\<close>

definition filter_fields :: "GestureRecogniser \<Rightarrow> Gesture \<Rightarrow> int \<Rightarrow> Gesture \<Rightarrow> GestureRecogniser" where
  "filter_fields s c k g = s\<lparr>gesture_streak := k, current_gesture := g, candidate := c\<rparr>"

lemma set_gesture_fields:
  "set_gesture s g =
     (filter_fields s g (if g = candidate s then gesture_streak s + 1 else 1)
        (if GESTURE_CONFIDENCE_FRAMES \<le> (if g = candidate s then gesture_streak s + 1 else 1)
         then g else current_gesture s),
      if GESTURE_CONFIDENCE_FRAMES \<le> (if g = candidate s then gesture_streak s + 1 else 1)
      then g else current_gesture s)"
  by (simp add: set_gesture_def filter_fields_def Let_def)

lemma emit_fields:
  "emit s g p =
     (filter_fields s g (if g = candidate s then gesture_streak s + 1 else 1)
        (if GESTURE_CONFIDENCE_FRAMES \<le> (if g = candidate s then gesture_streak s + 1 else 1)
         then g else current_gesture s),
      (if GESTURE_CONFIDENCE_FRAMES \<le> (if g = candidate s then gesture_streak s + 1 else 1)
       then g else current_gesture s),
      p)"
  by (simp add: emit_def set_gesture_fields)

subsection \<open>Each stage of a tick returns\<close>

lemma ema_total:
  "unset_together s \<Longrightarrow>
   \<exists>sx sy sz. ema s x y z =
     Inr (s\<lparr>smooth_x := Some sx, smooth_y := Some sy, smooth_z := Some sz\<rparr>, sx, sy, sz)"
  by (auto simp: ema_def unset_together_def Let_def split: option.splits)

lemma ema_frame:
  "ema s x y z = Inr (s1, sx, sy, sz) \<Longrightarrow>
   s1 = s\<lparr>smooth_x := Some sx, smooth_y := Some sy, smooth_z := Some sz\<rparr>"
  by (auto simp: ema_def Let_def split: option.splits)

lemma emit_frame:
  "emit s c p = (s2, g, p') \<Longrightarrow>
   s2 = filter_fields s c (gesture_streak s2) g \<and> p' = p \<and> g = current_gesture s2 \<and> candidate s2 = c"
  by (auto simp: emit_fields filter_fields_def)

lemma classify_tail_emit:
  "(prev_x s = None \<longleftrightarrow> prev_y s = None) \<Longrightarrow>
   \<exists>s1 c p. classify_tail s opn sx sy now speed = Inr (emit s1 c p)
             \<and> (s1 = s \<or> s1 = s\<lparr>zoom_end_time := now\<rparr>)"
  unfolding classify_tail_def Let_def
  by (cases "prev_x s"; cases "prev_y s"; simp; blast)

lemma classify_emit:
  assumes "prev_x s = None \<longleftrightarrow> prev_y s = None"
  shows "\<exists>s1 c p. classify s h opn sx sy now = Inr (emit s1 c p)
             \<and> (s1 = s \<or> s1 = s\<lparr>zoom_end_time := now\<rparr>)"
proof -
  obtain sp where sp: "openness_speed s = Inr sp"
    using openness_speed_eq by blast
  note tl = classify_tail_emit[OF assms, of opn sx sy now sp]
  show ?thesis
  proof (cases sp)
    case None
    with sp tl show ?thesis by (simp add: classify_def)
  next
    case (Some v)
    consider "v > ZOOM_SPEED_THRESHOLD" | "\<not> v > ZOOM_SPEED_THRESHOLD" "v < - ZOOM_SPEED_THRESHOLD"
      | "\<not> v > ZOOM_SPEED_THRESHOLD" "\<not> v < - ZOOM_SPEED_THRESHOLD" by blast
    then show ?thesis
    proof cases
      case 1
      with sp Some show ?thesis by (auto simp: classify_def)
    next
      case 2
      with sp Some show ?thesis by (auto simp: classify_def)
    next
      case 3
      with sp Some tl show ?thesis by (simp add: classify_def)
    qed
  qed
qed

subsection \<open>The openness estimator\<close>

lemma clamp01_max_min: "max 0 (min 1 v) = clamp01 v"
  by (simp add: clamp01_def max_def min_def)

lemma getitems_in:
  "\<forall>i \<in> set ids. i < length xs \<Longrightarrow> getitems xs ids = Inr (map (\<lambda>i. xs ! i) ids)"
  by (induction ids) (simp_all add: getitem_in)

lemma float_sq_eq: "float_sq v = (if sq_overflows v then Inl OverflowError else Inr (v * v))"
  by (simp add: float_sq_def power2_eq_square)

lemma dist3_eq:
  "dist3 a b = (if dist_overflows a b then Inl OverflowError else Inr (distance3 a b))"
  by (simp add: dist3_def float_sq_eq dist_overflows_def distance3_def)

lemma distance3_nonneg: "0 \<le> distance3 a b"
  by (simp add: distance3_def)

lemma openness_loop_eq:
  "\<forall>f \<in> set ids. fst f < length lms \<and> snd f < length lms
       \<and> \<not> dist_overflows (lms ! fst f) w \<and> \<not> dist_overflows (lms ! snd f) w \<Longrightarrow>
   openness_loop lms w ids acc =
     Inr (acc @ map (\<lambda>f. distance3 (lms ! fst f) w / distance3 (lms ! snd f) w)
                  (filter (\<lambda>f. distance3 (lms ! snd f) w \<ge> 0.000001) ids))"
proof (induction ids arbitrary: acc)
  case Nil
  then show ?case by simp
next
  case (Cons f ids)
  obtain t m where f: "f = (t, m)" by (cases f)
  from Cons.prems f have t: "t < length lms" and m: "m < length lms"
    and ot: "\<not> dist_overflows (lms ! t) w" and om: "\<not> dist_overflows (lms ! m) w" by auto
  from Cons.prems have rest: "\<forall>f \<in> set ids. fst f < length lms \<and> snd f < length lms
       \<and> \<not> dist_overflows (lms ! fst f) w \<and> \<not> dist_overflows (lms ! snd f) w" by simp
  show ?case
  proof (cases "distance3 (lms ! m) w < 0.000001")
    case True
    then show ?thesis
      using Cons.IH[OF rest, of acc] f t m ot om by (simp add: getitem_in dist3_eq)
  next
    case False
    then have nz: "distance3 (lms ! m) w \<noteq> 0" by auto
    show ?thesis
      using Cons.IH[OF rest, of "acc @ [distance3 (lms ! t) w / distance3 (lms ! m) w]"]
        f t m ot om False nz
      by (simp add: getitem_in dist3_eq truediv_nz)
  qed
qed

lemma openness_loop_overflow:
  assumes "\<forall>f \<in> set ids. fst f < length lms \<and> snd f < length lms"
    and "\<exists>f \<in> set ids. dist_overflows (lms ! fst f) w \<or> dist_overflows (lms ! snd f) w"
  shows "openness_loop lms w ids acc = Inl OverflowError"
  using assms
proof (induction ids arbitrary: acc)
  case Nil
  then show ?case by simp
next
  case (Cons f ids)
  obtain t m where f: "f = (t, m)" by (cases f)
  from Cons.prems(1) f have t: "t < length lms" and m: "m < length lms" by auto
  from Cons.prems(1) have rest: "\<forall>f \<in> set ids. fst f < length lms \<and> snd f < length lms" by simp
  show ?case
  proof (cases "dist_overflows (lms ! t) w \<or> dist_overflows (lms ! m) w")
    case True
    then show ?thesis using f t m by (auto simp: getitem_in dist3_eq)
  next
    case False
    with Cons.prems(2) f have ex:
      "\<exists>f \<in> set ids. dist_overflows (lms ! fst f) w \<or> dist_overflows (lms ! snd f) w" by auto
    show ?thesis
    proof (cases "distance3 (lms ! m) w < 0.000001")
      case True
      with False Cons.IH[OF rest ex, of acc] f t m show ?thesis
        by (simp add: getitem_in dist3_eq)
    next
      case far: False
      then have nz: "distance3 (lms ! m) w \<noteq> 0" by auto
      with False far f t m
        Cons.IH[OF rest ex, of "acc @ [distance3 (lms ! t) w / distance3 (lms ! m) w]"]
      show ?thesis by (simp add: getitem_in dist3_eq truediv_nz)
    qed
  qed
qed

lemma openness_loop_returns:
  "openness_loop lms w ids acc = Inr rs \<Longrightarrow>
   \<forall>f \<in> set ids. fst f < length lms \<and> snd f < length lms"
proof (induction ids arbitrary: acc)
  case Nil
  then show ?case by simp
next
  case (Cons f ids)
  obtain t m where f: "f = (t, m)" by (cases f)
  from Cons.prems f have t: "t < length lms"
    by (cases "t < length lms") (simp_all add: getitem_def)
  from Cons.prems f t have m: "m < length lms"
    by (cases "m < length lms") (simp_all add: getitem_def)
  from Cons.prems f t m have no: "\<not> dist_overflows (lms ! t) w" "\<not> dist_overflows (lms ! m) w"
    by (auto simp: getitem_in dist3_eq split: if_splits)
  have "\<exists>acc'. openness_loop lms w ids acc' = Inr rs"
  proof (cases "distance3 (lms ! m) w < 0.000001")
    case True
    with Cons.prems f t m no show ?thesis by (auto simp: getitem_in dist3_eq)
  next
    case False
    then have "distance3 (lms ! m) w \<noteq> 0" by auto
    with Cons.prems f t m no False show ?thesis by (auto simp: getitem_in dist3_eq truediv_nz)
  qed
  then obtain acc' where "openness_loop lms w ids acc' = Inr rs" by blast
  from Cons.IH[OF this] f t m show ?case by simp
qed

lemma fingers_in_range:
  "21 \<le> length lms \<Longrightarrow> \<forall>f \<in> set fingers. fst f < length lms \<and> snd f < length lms"
  by (simp add: fingers_def)

lemma zip_fingers: "zip [4, 8, 12, 16, 20] [2, 5, 9, 13, 17] = fingers"
  by (simp add: fingers_def)

lemma overflows_iff:
  "overflows lms \<longleftrightarrow>
     (\<exists>f \<in> set fingers. dist_overflows (lms ! fst f) (lms ! 0) \<or> dist_overflows (lms ! snd f) (lms ! 0))"
  by (simp only: overflows_def list_ex_iff)

lemma hand_openness_eq:
  assumes "complete h"
  shows "hand_openness h = Inr (openness_spec (landmarks h))"
proof -
  let ?lms = "landmarks h"
  from assms have len: "21 \<le> length ?lms" and no: "\<not> overflows ?lms"
    by (simp_all add: complete_def)
  have "0 < length ?lms" using len by linarith
  then have w: "getitem ?lms 0 = Inr (?lms ! 0)" by (rule getitem_in)
  have ids: "\<forall>f \<in> set fingers. fst f < length ?lms \<and> snd f < length ?lms
       \<and> \<not> dist_overflows (?lms ! fst f) (?lms ! 0) \<and> \<not> dist_overflows (?lms ! snd f) (?lms ! 0)"
    using fingers_in_range[OF len] no unfolding overflows_iff by blast
  have loop: "openness_loop ?lms (?lms ! 0) fingers [] = Inr (map (finger_ratio ?lms) (surviving ?lms))"
    using openness_loop_eq[OF ids, of "[]"]
    by (simp add: surviving_def finger_ratio_def[abs_def])
  show ?thesis
  proof (cases "surviving ?lms = []")
    case True
    then show ?thesis
      unfolding hand_openness_def w zip_fingers by (simp add: loop openness_spec_def)
  next
    case False
    then have "real (length (surviving ?lms)) \<noteq> 0" by simp
    then show ?thesis
      unfolding hand_openness_def w zip_fingers using False
      by (simp add: loop openness_spec_def truediv_nz clamp01_max_min del: max.absorb1 max.absorb2 min.absorb1 min.absorb2)
  qed
qed

lemma hand_openness_overflow:
  assumes len: "21 \<le> length (landmarks h)" and ov: "overflows (landmarks h)"
  shows "hand_openness h = Inl OverflowError"
proof -
  let ?lms = "landmarks h"
  have "0 < length ?lms" using len by linarith
  then have w: "getitem ?lms 0 = Inr (?lms ! 0)" by (rule getitem_in)
  from ov have ex: "\<exists>f \<in> set fingers. dist_overflows (?lms ! fst f) (?lms ! 0)
      \<or> dist_overflows (?lms ! snd f) (?lms ! 0)" by (simp only: overflows_iff)
  from openness_loop_overflow[OF fingers_in_range[OF len] ex, of "[]"]
  show ?thesis unfolding hand_openness_def w zip_fingers by simp
qed

lemma hand_openness_returns:
  assumes "hand_openness h = Inr v"
  shows "complete h"
proof -
  let ?lms = "landmarks h"
  note d = hand_openness_def[of h, unfolded zip_fingers]
  from assms obtain w where w: "getitem ?lms 0 = Inr w"
    by (cases "getitem ?lms 0") (simp_all add: d)
  from assms w obtain rs where loop: "openness_loop ?lms w fingers [] = Inr rs"
    by (cases "openness_loop ?lms w fingers []") (simp_all add: d)
  from openness_loop_returns[OF loop] have "20 < length ?lms" by (simp add: fingers_def)
  then have len: "21 \<le> length ?lms" by simp
  have "\<not> overflows ?lms"
  proof
    assume "overflows ?lms"
    from hand_openness_overflow[OF len this] assms show False by simp
  qed
  with len show ?thesis by (simp add: complete_def)
qed

lemma hand_openness_returns_iff: "(\<exists>v. hand_openness h = Inr v) \<longleftrightarrow> complete h"
  using hand_openness_eq hand_openness_returns by blast

lemma openness_loop_short:
  assumes "\<exists>f \<in> set ids. \<not> (fst f < length lms \<and> snd f < length lms)"
    and "\<forall>a \<in> set lms. \<not> dist_overflows a w"
  shows "openness_loop lms w ids acc = Inl IndexError"
  using assms(1)
proof (induction ids arbitrary: acc)
  case Nil
  then show ?case by simp
next
  case (Cons f ids)
  obtain t m where f: "f = (t, m)" by (cases f)
  show ?case
  proof (cases "t < length lms \<and> m < length lms")
    case False
    then show ?thesis using f by (auto simp: getitem_def)
  next
    case True
    with assms(2) have no: "\<not> dist_overflows (lms ! t) w" "\<not> dist_overflows (lms ! m) w"
      by simp_all
    from Cons.prems f True have ex: "\<exists>f \<in> set ids. \<not> (fst f < length lms \<and> snd f < length lms)"
      by auto
    show ?thesis
    proof (cases "distance3 (lms ! m) w < 0.000001")
      case near: True
      with True no f Cons.IH[OF ex, of acc] show ?thesis by (simp add: getitem_in dist3_eq)
    next
      case False
      then have "distance3 (lms ! m) w \<noteq> 0" by auto
      with True no f False Cons.IH[OF ex, of "acc @ [distance3 (lms ! t) w / distance3 (lms ! m) w]"]
      show ?thesis by (simp add: getitem_in dist3_eq truediv_nz)
    qed
  qed
qed

lemma hand_openness_short:
  assumes len: "length (landmarks h) < 21"
    and no: "\<forall>a \<in> set (landmarks h). \<not> dist_overflows a (landmarks h ! 0)"
  shows "hand_openness h = Inl IndexError"
proof (cases "landmarks h = []")
  case True
  then show ?thesis by (simp add: hand_openness_def getitem_def)
next
  case False
  let ?lms = "landmarks h"
  from False have "0 < length ?lms" by simp
  then have w: "getitem ?lms 0 = Inr (?lms ! 0)" by (rule getitem_in)
  from len have "\<exists>f \<in> set fingers. \<not> (fst f < length ?lms \<and> snd f < length ?lms)"
    by (simp add: fingers_def)
  from openness_loop_short[OF this no, of "[]"]
  show ?thesis unfolding hand_openness_def w zip_fingers by simp
qed


lemma fingertip_center_eq:
  assumes "21 \<le> length (landmarks h)"
  shows "fingertip_center h =
     Inr (sum_list (map (\<lambda>i. lm_x (landmarks h ! i)) [4, 8, 12, 16, 20]) / 5,
          sum_list (map (\<lambda>i. lm_y (landmarks h ! i)) [4, 8, 12, 16, 20]) / 5,
          sum_list (map (\<lambda>i. lm_z (landmarks h ! i)) [4, 8, 12, 16, 20]) / 5)"
proof -
  have "\<forall>i \<in> set [4, 8, 12, 16, 20]. i < length (landmarks h)" using assms by simp
  from getitems_in[OF this] show ?thesis
    unfolding fingertip_center_def by (simp add: comp_def)
qed

subsection \<open>One tick\<close>

lemma filter_fields_sel [simp]:
  "smooth_x (filter_fields s c k g) = smooth_x s"
  "smooth_y (filter_fields s c k g) = smooth_y s"
  "smooth_z (filter_fields s c k g) = smooth_z s"
  "prev_x (filter_fields s c k g) = prev_x s"
  "prev_y (filter_fields s c k g) = prev_y s"
  "openness_history (filter_fields s c k g) = openness_history s"
  "zoom_end_time (filter_fields s c k g) = zoom_end_time s"
  "candidate (filter_fields s c k g) = c"
  "gesture_streak (filter_fields s c k g) = k"
  "current_gesture (filter_fields s c k g) = g"
  by (simp_all add: filter_fields_def)

text \<open>The state a presence tick leaves, given the filter's result.\<close>

definition stored ::
  "GestureRecogniser \<Rightarrow> real \<Rightarrow> real \<Rightarrow> real \<Rightarrow> real \<Rightarrow> GestureRecogniser" where
  "stored s2 sx sy now_u openness =
     s2\<lparr>prev_x := Some sx, prev_y := Some sy,
        openness_history := deque_append (openness_history s2) (now_u, openness),
        last_openness := Some openness, last_openness_time := now_u\<rparr>"

lemma update_present:
  assumes inv: "unset_together s"
    and opn: "hand_openness h = Inr openness"
    and ctr: "fingertip_center h = Inr (cx, cy, cz)"
  shows "\<exists>sx sy sz s1 c p.
           ema s cx cy cz = Inr (s\<lparr>smooth_x := Some sx, smooth_y := Some sy, smooth_z := Some sz\<rparr>, sx, sy, sz)
           \<and> (s1 = s\<lparr>smooth_x := Some sx, smooth_y := Some sy, smooth_z := Some sz\<rparr>
                \<or> s1 = s\<lparr>smooth_x := Some sx, smooth_y := Some sy, smooth_z := Some sz,
                           zoom_end_time := now_c\<rparr>)
           \<and> update s (Some h) now_c now_u =
                Inr (stored (fst (emit s1 c p)) sx sy now_u openness,
                     fst (snd (emit s1 c p)), snd (snd (emit s1 c p)))"
proof -
  from ema_total[OF inv, of cx cy cz] obtain sx sy sz where
    e: "ema s cx cy cz = Inr (s\<lparr>smooth_x := Some sx, smooth_y := Some sy, smooth_z := Some sz\<rparr>, sx, sy, sz)"
    by blast
  let ?s0 = "s\<lparr>smooth_x := Some sx, smooth_y := Some sy, smooth_z := Some sz\<rparr>"
  have p0: "prev_x ?s0 = None \<longleftrightarrow> prev_y ?s0 = None"
    using inv by (simp add: unset_together_def)
  from classify_emit[OF p0, of h openness sx sy now_c] obtain s1 c p where
    c: "classify ?s0 h openness sx sy now_c = Inr (emit s1 c p)"
    and s1: "s1 = ?s0 \<or> s1 = ?s0\<lparr>zoom_end_time := now_c\<rparr>" by blast
  have "update s (Some h) now_c now_u =
          Inr (stored (fst (emit s1 c p)) sx sy now_u openness,
               fst (snd (emit s1 c p)), snd (snd (emit s1 c p)))"
    unfolding update_def by (simp add: opn ctr e c stored_def split: prod.split)
  with e s1 show ?thesis by blast
qed

lemma emit_sel [simp]:
  "smooth_x (fst (emit s c p)) = smooth_x s"
  "smooth_y (fst (emit s c p)) = smooth_y s"
  "smooth_z (fst (emit s c p)) = smooth_z s"
  "prev_x (fst (emit s c p)) = prev_x s"
  "prev_y (fst (emit s c p)) = prev_y s"
  "openness_history (fst (emit s c p)) = openness_history s"
  "zoom_end_time (fst (emit s c p)) = zoom_end_time s"
  "candidate (fst (emit s c p)) = c"
  "snd (snd (emit s c p)) = p"
  "fst (snd (emit s c p)) = current_gesture (fst (emit s c p))"
  by (simp_all add: emit_fields)

lemma emit_streak:
  "gesture_streak (fst (emit s c p)) = (if c = candidate s then gesture_streak s + 1 else 1)"
  by (simp add: emit_fields)

lemma emit_current:
  "current_gesture (fst (emit s c p)) =
     (if GESTURE_CONFIDENCE_FRAMES \<le> (if c = candidate s then gesture_streak s + 1 else 1)
      then c else current_gesture s)"
  by (simp add: emit_fields)

lemma stored_sel [simp]:
  "smooth_x (stored s sx sy u v) = smooth_x s"
  "smooth_y (stored s sx sy u v) = smooth_y s"
  "smooth_z (stored s sx sy u v) = smooth_z s"
  "prev_x (stored s sx sy u v) = Some sx"
  "prev_y (stored s sx sy u v) = Some sy"
  "openness_history (stored s sx sy u v) = deque_append (openness_history s) (u, v)"
  "zoom_end_time (stored s sx sy u v) = zoom_end_time s"
  "candidate (stored s sx sy u v) = candidate s"
  "gesture_streak (stored s sx sy u v) = gesture_streak s"
  "current_gesture (stored s sx sy u v) = current_gesture s"
  by (simp_all add: stored_def)

lemma update_absent:
  "update s None now_c now_u =
     Inr (fst (emit (reset_smooth s) IDLE None), current_gesture (fst (emit (reset_smooth s) IDLE None)), None)"
  by (simp add: update_def emit_fields)

lemma reset_smooth_sel [simp]:
  "smooth_x (reset_smooth s) = None"
  "smooth_y (reset_smooth s) = None"
  "smooth_z (reset_smooth s) = None"
  "prev_x (reset_smooth s) = None"
  "prev_y (reset_smooth s) = None"
  "openness_history (reset_smooth s) = []"
  "zoom_end_time (reset_smooth s) = zoom_end_time s"
  "candidate (reset_smooth s) = candidate s"
  "gesture_streak (reset_smooth s) = gesture_streak s"
  "current_gesture (reset_smooth s) = current_gesture s"
  by (simp_all add: reset_smooth_def)

lemma update_keeps_unset_together:
  assumes inv: "unset_together s" and upd: "update s hand now_c now_u = Inr (s', g, p)"
  shows "unset_together s'"
proof (cases hand)
  case None
  with upd show ?thesis by (auto simp: update_absent unset_together_def)
next
  case (Some h)
  from upd Some obtain openness where opn: "hand_openness h = Inr openness"
    by (cases "hand_openness h") (simp_all add: update_def)
  from upd Some opn obtain cx cy cz where ctr: "fingertip_center h = Inr (cx, cy, cz)"
    by (cases "fingertip_center h") (auto simp: update_def)
  from update_present[OF inv opn ctr, of now_c now_u] upd Some
  show ?thesis by (auto simp: unset_together_def)
qed

lemma update_total:
  assumes inv: "unset_together s" and wf: "well_formed hand"
  shows "\<exists>s' g p. update s hand now_c now_u = Inr (s', g, p)"
proof (cases hand)
  case None
  then show ?thesis by (simp add: update_absent)
next
  case (Some h)
  with wf have cpl: "complete h" by (simp add: well_formed_def)
  then have len: "21 \<le> length (landmarks h)" by (simp add: complete_def)
  obtain cx cy cz where ctr: "fingertip_center h = Inr (cx, cy, cz)"
    using fingertip_center_eq[OF len] by blast
  from update_present[OF inv hand_openness_eq[OF cpl] ctr, of now_c now_u] Some
  show ?thesis by blast
qed

lemma init_unset_together: "unset_together init"
  by (simp add: unset_together_def init_def)

lemma reachable_unset_together: "reachable s \<Longrightarrow> unset_together s"
  by (induction rule: reachable.induct) (auto intro: init_unset_together update_keeps_unset_together)

lemma run_total:
  "unset_together s \<Longrightarrow> \<forall>t \<in> set ticks. well_formed (fst t) \<Longrightarrow>
   \<exists>s' outs. run s ticks = Inr (s', outs) \<and> length outs = length ticks \<and> unset_together s'"
proof (induction ticks arbitrary: s)
  case Nil
  then show ?case by simp
next
  case (Cons t ticks)
  obtain hand c u where t: "t = (hand, c, u)" by (cases t)
  with Cons.prems have wf: "well_formed hand" by simp
  from update_total[OF Cons.prems(1) wf, of c u] obtain s1 g p where
    u1: "update s hand c u = Inr (s1, g, p)" by blast
  have inv1: "unset_together s1" by (rule update_keeps_unset_together[OF Cons.prems(1) u1])
  from Cons.prems have "\<forall>t \<in> set ticks. well_formed (fst t)" by simp
  from Cons.IH[OF inv1 this] obtain s' outs where
    "run s1 ticks = Inr (s', outs)" "length outs = length ticks" "unset_together s'" by blast
  with u1 t show ?case by simp
qed

lemma run_snoc:
  "run s (ticks @ [(hand, c, u)]) =
     (case run s ticks of
        Inl e \<Rightarrow> Inl e
      | Inr (s1, outs) \<Rightarrow>
          (case update s1 hand c u of
             Inl e \<Rightarrow> Inl e
           | Inr (s2, g, p) \<Rightarrow> Inr (s2, outs @ [(g, p)])))"
  by (induction ticks arbitrary: s) (auto split: sum.splits prod.splits)

lemma run_reachable:
  "reachable s \<Longrightarrow> run s ticks = Inr (s', outs) \<Longrightarrow> reachable s'"
proof (induction ticks arbitrary: s outs)
  case Nil
  then show ?case by simp
next
  case (Cons t ticks)
  obtain hand c u where t: "t = (hand, c, u)" by (cases t)
  from Cons.prems(2) t obtain s1 g p where u1: "update s hand c u = Inr (s1, g, p)"
    by (cases "update s hand c u") (auto)
  from Cons.prems(2) t u1 obtain outs1 where r: "run s1 ticks = Inr (s', outs1)"
    by (cases "run s1 ticks") (auto)
  from reachable_update[OF Cons.prems(1) u1] have "reachable s1" .
  from Cons.IH[OF this r] show ?case .
qed

lemma update_keeps_streak:
  assumes inv: "unset_together s" and k: "0 \<le> gesture_streak s"
    and upd: "update s hand now_c now_u = Inr (s', g, p)"
  shows "0 \<le> gesture_streak s'"
proof (cases hand)
  case None
  with upd k show ?thesis by (auto simp: update_absent emit_streak)
next
  case (Some h)
  from upd Some obtain openness where opn: "hand_openness h = Inr openness"
    by (cases "hand_openness h") (simp_all add: update_def)
  from upd Some opn obtain cx cy cz where ctr: "fingertip_center h = Inr (cx, cy, cz)"
    by (cases "fingertip_center h") (auto simp: update_def)
  from update_present[OF inv opn ctr, of now_c now_u] upd Some k
  show ?thesis by (auto simp: emit_streak)
qed

lemma reachable_streak: "reachable s \<Longrightarrow> 0 \<le> gesture_streak s"
proof (induction rule: reachable.induct)
  case reachable_init
  then show ?case by (simp add: init_def)
next
  case (reachable_update s hand now_c now_u s' g p)
  then show ?case using update_keeps_streak reachable_unset_together by blast
qed

lemma absent_run:
  assumes k: "0 \<le> gesture_streak s"
  shows "\<forall>t \<in> set ticks. fst t = None \<Longrightarrow>
     \<exists>s' outs. run s ticks = Inr (s', outs) \<and> length outs = length ticks
        \<and> 0 \<le> gesture_streak s'
        \<and> (ticks \<noteq> [] \<longrightarrow> candidate s' = IDLE \<and> int (length ticks) \<le> gesture_streak s')
        \<and> (nat GESTURE_CONFIDENCE_FRAMES \<le> length ticks \<longrightarrow>
              current_gesture s' = IDLE \<and> last outs = (IDLE, None))"
proof (induction ticks rule: rev_induct)
  case Nil
  then show ?case using k by (simp add: GESTURE_CONFIDENCE_FRAMES_def)
next
  case (snoc t ticks)
  obtain c u where t: "t = (None, c, u)" using snoc.prems by (cases t) auto
  from snoc have "\<forall>t \<in> set ticks. fst t = None" by simp
  from snoc.IH[OF this] obtain s1 outs where
    r: "run s ticks = Inr (s1, outs)" and l: "length outs = length ticks"
    and k1: "0 \<le> gesture_streak s1"
    and c1: "ticks \<noteq> [] \<longrightarrow> candidate s1 = IDLE \<and> int (length ticks) \<le> gesture_streak s1"
    by blast
  let ?s2 = "fst (emit (reset_smooth s1) IDLE None)"
  have r2: "run s (ticks @ [t]) = Inr (?s2, outs @ [(current_gesture ?s2, None)])"
    by (simp add: t run_snoc r update_absent)
  have cand: "candidate ?s2 = IDLE" by simp
  have str: "int (length (ticks @ [t])) \<le> gesture_streak ?s2 \<and> 0 \<le> gesture_streak ?s2"
    using c1 k1 by (cases "ticks = []") (auto simp: emit_streak)
  have cur: "nat GESTURE_CONFIDENCE_FRAMES \<le> length (ticks @ [t]) \<longrightarrow> current_gesture ?s2 = IDLE"
    using c1 k1 by (cases "ticks = []") (auto simp: emit_current GESTURE_CONFIDENCE_FRAMES_def)
  show ?case
    using r2 l cand str cur by auto
qed

lemma openness_loop_error:
  "openness_loop lms w ids acc = Inl e \<Longrightarrow> e = IndexError \<or> e = OverflowError"
proof (induction ids arbitrary: acc)
  case Nil
  then show ?case by simp
next
  case (Cons f ids)
  obtain t m where f: "f = (t, m)" by (cases f)
  show ?case
  proof (cases "t < length lms \<and> m < length lms")
    case False
    with Cons.prems f show ?thesis
      by (auto simp: getitem_def split: if_splits)
  next
    case True
    show ?thesis
    proof (cases "dist_overflows (lms ! t) w \<or> dist_overflows (lms ! m) w")
      case ov: True
      with Cons.prems f True show ?thesis by (auto simp: getitem_in dist3_eq split: if_splits)
    next
      case no: False
      show ?thesis
      proof (cases "distance3 (lms ! m) w < 0.000001")
        case near: True
        with Cons.prems f True no Cons.IH[of acc]
        show ?thesis by (simp add: getitem_in dist3_eq)
      next
        case False
        then have nz: "distance3 (lms ! m) w \<noteq> 0" by auto
        with Cons.prems f True no False
          Cons.IH[of "acc @ [distance3 (lms ! t) w / distance3 (lms ! m) w]"]
        show ?thesis by (simp add: getitem_in dist3_eq truediv_nz)
      qed
    qed
  qed
qed

lemma getitem_error: "getitem xs i = Inl e \<Longrightarrow> e = IndexError"
  by (simp add: getitem_def split: if_splits)

lemma hand_openness_error:
  assumes "hand_openness h = Inl e"
  shows "e = IndexError \<or> e = OverflowError"
proof -
  define ids where "ids = zip [4, 8, 12, 16, 20::nat] [2, 5, 9, 13, 17::nat]"
  note d = hand_openness_def[of h, folded ids_def]
  show ?thesis
  proof (cases "getitem (landmarks h) 0")
    case (Inl e1)
    with assms have "e = e1" by (simp add: d)
    with Inl show ?thesis by (simp add: getitem_error)
  next
    case (Inr w)
    show ?thesis
    proof (cases "openness_loop (landmarks h) w ids []")
      case (Inl e1)
      with assms Inr have "e = e1" by (simp add: d)
      with Inl show ?thesis using openness_loop_error by blast
    next
      case loop: (Inr ratios)
      show ?thesis
      proof (cases "ratios = []")
        case True
        with assms Inr loop show ?thesis by (simp add: d)
      next
        case False
        then have "real (length ratios) \<noteq> 0" by simp
        with assms Inr loop False show ?thesis by (simp add: d truediv_nz)
      qed
    qed
  qed
qed

lemma getitems_error: "getitems xs ids = Inl e \<Longrightarrow> e = IndexError"
  by (induction ids arbitrary: e) (auto simp: getitem_def split: if_splits sum.splits)

lemma fingertip_center_error:
  assumes "fingertip_center h = Inl e"
  shows "e = IndexError"
proof -
  define ids where "ids = [4, 8, 12, 16, 20::nat]"
  note d = fingertip_center_def[of h, folded ids_def]
  from assms show ?thesis
    by (cases "getitems (landmarks h) ids") (simp_all add: d getitems_error)
qed

lemma update_error:
  assumes inv: "unset_together s" and upd: "update s hand now_c now_u = Inl e"
  shows "e = IndexError \<or> e = OverflowError"
proof (cases hand)
  case None
  with upd show ?thesis by (simp add: update_absent)
next
  case (Some h)
  show ?thesis
  proof (cases "hand_openness h")
    case (Inl e1)
    with upd Some have "e = e1" by (simp add: update_def)
    with Inl show ?thesis using hand_openness_error by blast
  next
    case (Inr openness)
    show ?thesis
    proof (cases "fingertip_center h")
      case (Inl e1)
      with upd Some Inr have "e = e1" by (simp add: update_def)
      with Inl show ?thesis by (simp add: fingertip_center_error)
    next
      case (Inr ctr)
      obtain cx cy cz where "ctr = (cx, cy, cz)" by (cases ctr)
      with Inr have c: "fingertip_center h = Inr (cx, cy, cz)" by simp
      from update_present[OF inv \<open>hand_openness h = Inr openness\<close> c, of now_c now_u] upd Some
      show ?thesis by auto
    qed
  qed
qed

lemma update_raises:
  "hand_openness h = Inl e \<Longrightarrow> update s (Some h) now_c now_u = Inl e"
  by (simp add: update_def)

lemma update_returns_iff:
  assumes inv: "unset_together s"
  shows "(\<exists>r. update s (Some h) now_c now_u = Inr r) \<longleftrightarrow> complete h"
proof
  assume "\<exists>r. update s (Some h) now_c now_u = Inr r"
  then obtain r where r: "update s (Some h) now_c now_u = Inr r" by blast
  show "complete h"
  proof (cases "hand_openness h")
    case (Inl e)
    from update_raises[OF this, of s now_c now_u] r show ?thesis by simp
  next
    case (Inr v)
    then show ?thesis by (rule hand_openness_returns)
  qed
next
  assume "complete h"
  then have "well_formed (Some h)" by (simp add: well_formed_def)
  from update_total[OF inv this, of now_c now_u] show "\<exists>r. update s (Some h) now_c now_u = Inr r"
    by blast
qed

lemma update_short:
  assumes len: "length (landmarks h) < 21"
  shows "update s (Some h) now_c now_u = Inl IndexError
       \<or> update s (Some h) now_c now_u = Inl OverflowError"
proof (cases "hand_openness h")
  case (Inl e)
  from hand_openness_error[OF this] update_raises[OF Inl, of s now_c now_u] show ?thesis by auto
next
  case (Inr v)
  from hand_openness_returns[OF this] len show ?thesis by (simp add: complete_def)
qed

subsection \<open>The hysteresis filter\<close>

lemma feed_append: "feed s (xs @ ys) = feed (feed s xs) ys"
  by (induction xs arbitrary: s) auto

lemma set_gesture_current:
  "current_gesture (fst (set_gesture s g)) = current_gesture s
   \<or> current_gesture (fst (set_gesture s g)) = g"
  by (simp add: set_gesture_def Let_def)

lemma set_gesture_candidate: "candidate (fst (set_gesture s g)) = g"
  by (simp add: set_gesture_def Let_def)

lemma set_gesture_streak:
  "gesture_streak (fst (set_gesture s g)) = (if g = candidate s then gesture_streak s + 1 else 1)"
  by (simp add: set_gesture_def Let_def)

lemma set_gesture_changed:
  "current_gesture (fst (set_gesture s g)) \<noteq> current_gesture s \<Longrightarrow>
   GESTURE_CONFIDENCE_FRAMES \<le> gesture_streak (fst (set_gesture s g))"
  by (simp add: set_gesture_def Let_def split: if_splits)

lemma set_gesture_snd: "snd (set_gesture s g) = current_gesture (fst (set_gesture s g))"
  by (simp add: set_gesture_def Let_def)

lemma trailing_snoc: "trailing g (gs @ [x]) = (if x = g then Suc (trailing g gs) else 0)"
  by (simp add: trailing_def)

lemma streak_le_trailing:
  "gesture_streak (feed init gs) \<le> int (trailing (candidate (feed init gs)) gs)"
proof (induction gs rule: rev_induct)
  case Nil
  then show ?case by (simp add: init_def trailing_def)
next
  case (snoc g gs)
  show ?case
    using snoc
    by (simp add: feed_append set_gesture_streak set_gesture_candidate trailing_snoc)
qed

lemma takeWhile_take_all:
  "n \<le> length (takeWhile (\<lambda>x. x = g) xs) \<Longrightarrow> take n xs = replicate n g"
proof (induction xs arbitrary: n)
  case Nil
  then show ?case by simp
next
  case (Cons a xs)
  show ?case
  proof (cases n)
    case 0
    then show ?thesis by simp
  next
    case (Suc m)
    with Cons.prems have a: "a = g" and m: "m \<le> length (takeWhile (\<lambda>x. x = g) xs)"
      by (auto split: if_splits)
    from Cons.IH[OF m] a Suc show ?thesis by simp
  qed
qed

lemma trailing_take:
  "n \<le> trailing g gs \<Longrightarrow> n \<le> length gs \<and> take n (rev gs) = replicate n g"
proof -
  assume n: "n \<le> trailing g gs"
  have "length (takeWhile (\<lambda>x. x = g) (rev gs)) \<le> length (rev gs)"
    by (rule length_takeWhile_le)
  with n have "n \<le> length gs" by (simp add: trailing_def)
  moreover from n have "take n (rev gs) = replicate n g"
    unfolding trailing_def by (rule takeWhile_take_all)
  ultimately show ?thesis by simp
qed

lemma feed_changed:
  assumes "current_gesture (feed init (gs @ [g])) \<noteq> current_gesture (feed init gs)"
  shows "nat GESTURE_CONFIDENCE_FRAMES \<le> length (gs @ [g])
         \<and> take (nat GESTURE_CONFIDENCE_FRAMES) (rev (gs @ [g])) = replicate (nat GESTURE_CONFIDENCE_FRAMES) g
         \<and> current_gesture (feed init (gs @ [g])) = g"
proof -
  let ?s = "feed init gs"
  have f: "feed init (gs @ [g]) = fst (set_gesture ?s g)" by (simp add: feed_append)
  from assms have ch: "current_gesture (fst (set_gesture ?s g)) \<noteq> current_gesture ?s"
    by (simp add: f)
  from set_gesture_changed[OF ch]
  have "GESTURE_CONFIDENCE_FRAMES \<le> gesture_streak (feed init (gs @ [g]))" by (simp add: f)
  also have "\<dots> \<le> int (trailing (candidate (feed init (gs @ [g]))) (gs @ [g]))"
    by (rule streak_le_trailing)
  also have "candidate (feed init (gs @ [g])) = g" by (simp add: f set_gesture_candidate)
  finally have "nat GESTURE_CONFIDENCE_FRAMES \<le> trailing g (gs @ [g])" by simp
  from trailing_take[OF this] set_gesture_current[of ?s g] ch show ?thesis
    by (auto simp: f)
qed

section \<open>Sample inputs\<close>

text \<open>A hand in the image plane: wrist at (c, 0), the five knuckles at (c, 1), the five
  fingertips at (c, r), every other landmark on the wrist.\<close>

definition pt :: "real \<Rightarrow> real \<Rightarrow> Landmark" where
  "pt a b = Landmark a b 0"

definition sample_hand :: "real \<Rightarrow> real \<Rightarrow> HandData" where
  "sample_hand c r =
     \<lparr> landmarks =
         [pt c 0, pt c 0, pt c 1, pt c 0, pt c r,
          pt c 1, pt c 0, pt c 0, pt c r,
          pt c 1, pt c 0, pt c 0, pt c r,
          pt c 1, pt c 0, pt c 0, pt c r,
          pt c 1, pt c 0, pt c 0, pt c r],
       handedness = ''Right'', timestamp = 0 \<rparr>"

lemma overflow_bound_large: "1000000 < DBL_OVERFLOW"
proof -
  have "(2::real) ^ 1024 - 2 ^ 970 = 2 ^ 970 * (2 ^ 54 - 1)"
    by (simp add: algebra_simps flip: power_add)
  moreover have "(1::real) \<le> 2 ^ 950" by simp
  then have "(2::real) ^ 20 * 1 \<le> 2 ^ 20 * 2 ^ 950" by (intro mult_left_mono) simp_all
  then have "(2::real) ^ 20 \<le> 2 ^ 970" by (simp flip: power_add)
  moreover have "(1::real) \<le> 2 ^ 54 - 1" by simp
  ultimately have "(2::real) ^ 20 * 1 \<le> 2 ^ 1024 - 2 ^ 970"
    by (simp only: mult_mono zero_le_one zero_le_power zero_le_numeral)
  then show ?thesis by (simp add: DBL_OVERFLOW_def)
qed

lemma sq_small: "\<bar>v\<bar> \<le> 1000 \<Longrightarrow> \<not> sq_overflows v"
proof -
  assume v: "\<bar>v\<bar> \<le> 1000"
  then have "\<bar>v\<bar> * \<bar>v\<bar> \<le> 1000 * 1000" by (intro mult_mono) simp_all
  then have "v\<^sup>2 \<le> 1000000" by (simp add: power2_eq_square abs_mult_self_eq)
  with overflow_bound_large show ?thesis by (simp add: sq_overflows_def)
qed

lemma distance3_pt: "distance3 (pt c a) (pt c b) = \<bar>a - b\<bar>"
  by (simp add: distance3_def pt_def)

lemma dist_overflows_pt: "\<bar>a - b\<bar> \<le> 1000 \<Longrightarrow> \<not> dist_overflows (pt c a) (pt c b)"
  by (simp add: dist_overflows_def pt_def sq_small)

lemma sample_hand_length: "length (landmarks (sample_hand c r)) = 21"
  by (simp add: sample_hand_def)

lemma sample_hand_complete: "0 \<le> r \<Longrightarrow> r \<le> 1000 \<Longrightarrow> complete (sample_hand c r)"
  by (simp add: complete_def overflows_def fingers_def sample_hand_def dist_overflows_pt)

lemma sample_hand_openness:
  "0 \<le> r \<Longrightarrow> r \<le> 1000 \<Longrightarrow> hand_openness (sample_hand c r) = Inr (clamp01 (r - 0.6))"
proof -
  assume r: "0 \<le> r" "r \<le> 1000"
  have sv: "surviving (landmarks (sample_hand c r)) = fingers"
    by (simp add: surviving_def fingers_def sample_hand_def distance3_pt)
  have "map (finger_ratio (landmarks (sample_hand c r))) fingers = [r, r, r, r, r]"
    using r by (simp add: finger_ratio_def fingers_def sample_hand_def distance3_pt)
  then have "openness_spec (landmarks (sample_hand c r)) = clamp01 (r - 0.6)"
    by (simp add: openness_spec_def sv) (simp add: fingers_def)
  with hand_openness_eq[OF sample_hand_complete[OF r]] show ?thesis by simp
qed

lemma sample_hand_center: "fingertip_center (sample_hand c r) = Inr (c, r, 0)"
proof -
  have len: "21 \<le> length (landmarks (sample_hand c r))" by (simp add: sample_hand_length)
  show ?thesis
    unfolding fingertip_center_eq[OF len] by (simp add: sample_hand_def pt_def)
qed

lemma dead_zone_hypot:
  "ORBIT_DEAD_ZONE < hypot a b \<longleftrightarrow> ORBIT_DEAD_ZONE\<^sup>2 < a\<^sup>2 + b\<^sup>2"
proof -
  have d: "0 \<le> ORBIT_DEAD_ZONE" by (simp add: ORBIT_DEAD_ZONE_def)
  have "sqrt (ORBIT_DEAD_ZONE\<^sup>2) < sqrt (a\<^sup>2 + b\<^sup>2) \<longleftrightarrow> ORBIT_DEAD_ZONE\<^sup>2 < a\<^sup>2 + b\<^sup>2"
    by (rule real_sqrt_less_iff)
  moreover have "sqrt (ORBIT_DEAD_ZONE\<^sup>2) = ORBIT_DEAD_ZONE"
    using d by simp
  ultimately show ?thesis by (simp only: hypot_def)
qed

lemma dead_zone_exceeded:
  "ORBIT_DEAD_ZONE < hypot a b \<longleftrightarrow> 0.000225 < a * a + b * b"
  unfolding dead_zone_hypot by (simp add: ORBIT_DEAD_ZONE_def power2_eq_square)

lemmas tick_eval =
  update_def sample_hand_openness sample_hand_center ema_def classify_def openness_speed_eq
  classify_tail_def emit_fields filter_fields_def deque_append_def dead_zone_exceeded
  clamp01_def Let_def
  GESTURE_CONFIDENCE_FRAMES_def ZOOM_SPEED_THRESHOLD_def EMA_ALPHA_def
  ORBIT_AFTER_ZOOM_COOLDOWN_def

definition degenerate_hand :: HandData where
  "degenerate_hand = \<lparr> landmarks = replicate 21 (Landmark 0 0 0), handedness = ''Left'', timestamp = 0 \<rparr>"

definition incomplete_hand :: HandData where
  "incomplete_hand = \<lparr> landmarks = replicate 20 (Landmark 0 0 0), handedness = ''Left'', timestamp = 0 \<rparr>"


lemma dist_overflows_same: "\<not> dist_overflows a a"
  by (simp add: dist_overflows_def sq_small)

lemma degenerate_hand_complete: "complete degenerate_hand"
  by (simp add: complete_def overflows_def fingers_def degenerate_hand_def dist_overflows_same)

text \<open>The hand of \<open>sample_hand\<close> with its fingertips at height \<open>2^700\<close>, a finite double.\<close>

definition huge_hand :: HandData where
  "huge_hand = sample_hand 0 (2 ^ 700)"

lemma sq_overflows_huge: "sq_overflows (2 ^ 700)"
proof -
  have a: "(2::real) ^ 700 < 2 ^ 1024 - 2 ^ 970"
  proof -
    have "(2::real) ^ 700 * 1 \<le> 2 ^ 700 * 2 ^ 270" by (intro mult_left_mono) simp_all
    then have "(2::real) ^ 700 \<le> 2 ^ 970" by (simp flip: power_add)
    moreover have "(2::real) ^ 970 * 2 < 2 ^ 970 * 2 ^ 54" by (intro mult_strict_left_mono) simp_all
    then have "(2::real) ^ 970 + 2 ^ 970 < 2 ^ 1024" by (simp flip: power_add)
    ultimately show ?thesis by linarith
  qed
  have "(2::real) ^ 1024 * 1 \<le> 2 ^ 1024 * 2 ^ 376" by (intro mult_left_mono) simp_all
  then have "(2::real) ^ 1024 \<le> (2 ^ 700)\<^sup>2" by (simp flip: power_add power_mult)
  moreover have "(0::real) \<le> 2 ^ 970" by simp
  ultimately have b: "(2::real) ^ 1024 - 2 ^ 970 \<le> (2 ^ 700)\<^sup>2" by linarith
  from a b show ?thesis by (simp add: sq_overflows_def DBL_OVERFLOW_def)
qed

lemma sample_hand_overflows: "sq_overflows r \<Longrightarrow> overflows (landmarks (sample_hand c r))"
  by (simp add: sample_hand_def overflows_def fingers_def dist_overflows_def pt_def)

lemma huge_hand_length: "length (landmarks huge_hand) = 21"
  unfolding huge_hand_def by (rule sample_hand_length)

lemma huge_hand_overflows: "overflows (landmarks huge_hand)"
  unfolding huge_hand_def by (rule sample_hand_overflows) (rule sq_overflows_huge)

lemma huge_hand_raises: "hand_openness huge_hand = Inl OverflowError"
  by (rule hand_openness_overflow) (simp_all only: huge_hand_length huge_hand_overflows order_refl)

lemma incomplete_hand_raises: "hand_openness incomplete_hand = Inl IndexError"
  by (rule hand_openness_short) (simp_all add: incomplete_hand_def dist_overflows_same)

text \<open>
  A hand spread in all three dimensions, wrist at the origin: knuckles at distance 5, 5, 5,
  3 and 0 (the little finger's knuckle lies on the wrist), fingertips at distance 7, 7, 7,
  6 and 9.
\<close>

definition spread_hand :: HandData where
  "spread_hand =
     \<lparr> landmarks =
         [Landmark 0 0 0, Landmark 0 0 0, Landmark 3 4 0, Landmark 0 0 0, Landmark 2 3 6,
          Landmark 0 3 4, Landmark 0 0 0, Landmark 0 0 0, Landmark 6 2 3,
          Landmark 4 0 3, Landmark 0 0 0, Landmark 0 0 0, Landmark 3 6 2,
          Landmark 1 2 2, Landmark 0 0 0, Landmark 0 0 0, Landmark 2 4 4,
          Landmark 0 0 0, Landmark 0 0 0, Landmark 0 0 0, Landmark 1 4 8],
       handedness = ''Left'', timestamp = 0 \<rparr>"


lemma spread_hand_length: "length (landmarks spread_hand) = 21"
  by (simp add: spread_hand_def)

lemma spread_hand_fits: "\<not> overflows (landmarks spread_hand)"
  by (simp add: overflows_def fingers_def spread_hand_def dist_overflows_def sq_small)



text \<open>An open hand (openness 1) drifting to the right, one snapshot every tenth of a second.\<close>

definition orbit_ticks :: "tick list" where
  "orbit_ticks =
     [(Some (sample_hand 0 2), 1, 1), (Some (sample_hand 0.1 2), 1.1, 1.1),
      (Some (sample_hand 0.2 2), 1.2, 1.2), (Some (sample_hand 0.3 2), 1.3, 1.3)]"

definition orbiting :: GestureRecogniser where
  "orbiting =
     \<lparr> smooth_x = Some (15849 / 80000), smooth_y = Some 2, smooth_z = Some 0,
       prev_x = Some (15849 / 80000), prev_y = Some 2,
       openness_history = [(1, 1), (11 / 10, 1), (6 / 5, 1), (13 / 10, 1)],
       last_openness = Some 1, last_openness_time = 13 / 10,
       gesture_streak = 3, current_gesture = ORBIT, candidate = ORBIT,
       last_zoom_time = 0, zoom_end_time = 0 \<rparr>"

lemma orbit_ticks_run:
  "run init orbit_ticks =
     Inr (orbiting, [(IDLE, None), (IDLE, Some (9 / 200, 0)), (IDLE, Some (279 / 4000, 0)),
                     (ORBIT, Some (6669 / 80000, 0))])"
  by (simp add: orbit_ticks_def orbiting_def tick_eval init_def)

lemma orbiting_reachable: "reachable orbiting"
  by (rule run_reachable[OF reachable_init orbit_ticks_run])

section \<open>The rules of the classifier\<close>

definition ema_value :: "real option \<Rightarrow> real \<Rightarrow> real" where
  "ema_value prev v = (case prev of None \<Rightarrow> v | Some p \<Rightarrow> EMA_ALPHA * v + (1 - EMA_ALPHA) * p)"

definition smoothed :: "GestureRecogniser \<Rightarrow> real \<Rightarrow> real \<Rightarrow> real \<Rightarrow> GestureRecogniser" where
  "smoothed s x y z =
     s\<lparr>smooth_x := Some (ema_value (smooth_x s) x),
       smooth_y := Some (ema_value (smooth_y s) y),
       smooth_z := Some (ema_value (smooth_z s) z)\<rparr>"

text \<open>The speed reading of a tick, \<^verbatim>\<open>None\<close> when unknown.\<close>

definition speed :: "GestureRecogniser \<Rightarrow> real option" where
  "speed s = (case openness_speed s of Inl e \<Rightarrow> None | Inr v \<Rightarrow> v)"

text \<open>Rules 1 and 2 of the classifier: the speed-triggered zoom and the zoom sustain.\<close>

definition zoom_rule_fires :: "GestureRecogniser \<Rightarrow> real \<Rightarrow> bool" where
  "zoom_rule_fires s openness \<longleftrightarrow>
     (case speed s of
        None \<Rightarrow> False
      | Some v \<Rightarrow> v > ZOOM_SPEED_THRESHOLD \<or> v < - ZOOM_SPEED_THRESHOLD)
     \<or> (current_gesture s = ZOOM_IN \<and> openness > 0.7)
     \<or> (current_gesture s = ZOOM_OUT \<and> openness < 0.3)"

text \<open>The condition under which rule 3 records the zoom-end timestamp.\<close>

definition zoom_ends :: "GestureRecogniser \<Rightarrow> bool" where
  "zoom_ends s \<longleftrightarrow>
     (current_gesture s = ZOOM_IN \<or> current_gesture s = ZOOM_OUT)
     \<and> (case speed s of None \<Rightarrow> False | Some v \<Rightarrow> \<bar>v\<bar> < ZOOM_SPEED_THRESHOLD)"

text \<open>The displacement of the smoothed fingertip centroid that a snapshot would produce.\<close>

definition displacement :: "GestureRecogniser \<Rightarrow> HandData \<Rightarrow> (real \<times> real) option" where
  "displacement s h =
     (case fingertip_center h of
        Inl e \<Rightarrow> None
      | Inr (cx, cy, cz) \<Rightarrow>
          (case prev_x s of
             None \<Rightarrow> None
           | Some px \<Rightarrow>
               (case prev_y s of
                  None \<Rightarrow> None
                | Some py \<Rightarrow> Some (ema_value (smooth_x s) cx - px, ema_value (smooth_y s) cy - py))))"

text \<open>An Orbit-qualifying snapshot: openness above 0.55 and displacement above the dead zone.\<close>

definition orbit_qualifying :: "GestureRecogniser \<Rightarrow> HandData \<Rightarrow> bool" where
  "orbit_qualifying s h \<longleftrightarrow>
     (case hand_openness h of Inl e \<Rightarrow> False | Inr v \<Rightarrow> v > 0.55)
     \<and> (case displacement s h of None \<Rightarrow> False | Some (dx, dy) \<Rightarrow> hypot dx dy > ORBIT_DEAD_ZONE)"

lemma ema_eq:
  "unset_together s \<Longrightarrow>
   ema s x y z = Inr (smoothed s x y z, ema_value (smooth_x s) x, ema_value (smooth_y s) y,
                      ema_value (smooth_z s) z)"
  by (auto simp: ema_def unset_together_def smoothed_def ema_value_def Let_def split: option.splits)

lemma smoothed_sel [simp]:
  "prev_x (smoothed s x y z) = prev_x s"
  "prev_y (smoothed s x y z) = prev_y s"
  "openness_history (smoothed s x y z) = openness_history s"
  "zoom_end_time (smoothed s x y z) = zoom_end_time s"
  "candidate (smoothed s x y z) = candidate s"
  "gesture_streak (smoothed s x y z) = gesture_streak s"
  "current_gesture (smoothed s x y z) = current_gesture s"
  "smooth_x (smoothed s x y z) = Some (ema_value (smooth_x s) x)"
  "smooth_y (smoothed s x y z) = Some (ema_value (smooth_y s) y)"
  "smooth_z (smoothed s x y z) = Some (ema_value (smooth_z s) z)"
  by (simp_all add: smoothed_def)

lemma openness_speed_speed: "openness_speed s = Inr (speed s)"
  by (simp add: speed_def openness_speed_eq)

lemma speed_history: "openness_history s = openness_history t \<Longrightarrow> speed s = speed t"
  by (simp add: speed_def openness_speed_eq)

lemma update_classify:
  assumes inv: "unset_together s"
    and opn: "hand_openness h = Inr v"
    and ctr: "fingertip_center h = Inr (cx, cy, cz)"
  shows "update s (Some h) c u =
     (case classify (smoothed s cx cy cz) h v (ema_value (smooth_x s) cx) (ema_value (smooth_y s) cy) c of
        Inl e \<Rightarrow> Inl e
      | Inr (s2, g, p) \<Rightarrow>
          Inr (stored s2 (ema_value (smooth_x s) cx) (ema_value (smooth_y s) cy) u v, g, p))"
  by (simp add: update_def opn ctr ema_eq[OF inv] stored_def split: sum.split prod.split)

definition speed_triggers :: "GestureRecogniser \<Rightarrow> bool" where
  "speed_triggers t \<longleftrightarrow>
     (case speed t of
        None \<Rightarrow> False
      | Some v \<Rightarrow> v > ZOOM_SPEED_THRESHOLD \<or> v < - ZOOM_SPEED_THRESHOLD)"

lemma classify_speed_zoom_in:
  assumes "speed t = Some w" and "w > ZOOM_SPEED_THRESHOLD"
  shows "classify t h v sx sy c = Inr (emit t ZOOM_IN None)"
  using assms by (simp add: classify_def openness_speed_speed)

lemma classify_speed_zoom_out:
  assumes "speed t = Some w" and "\<not> w > ZOOM_SPEED_THRESHOLD" and "w < - ZOOM_SPEED_THRESHOLD"
  shows "classify t h v sx sy c = Inr (emit t ZOOM_OUT None)"
  using assms by (simp add: classify_def openness_speed_speed)

lemma classify_no_trigger:
  assumes "\<not> speed_triggers t"
  shows "classify t h v sx sy c = classify_tail t v sx sy c (speed t)"
proof (cases "speed t")
  case None
  then show ?thesis by (simp add: classify_def openness_speed_speed)
next
  case (Some w)
  with assms have "\<not> w > ZOOM_SPEED_THRESHOLD" "\<not> w < - ZOOM_SPEED_THRESHOLD"
    by (simp_all add: speed_triggers_def)
  with Some show ?thesis by (simp add: classify_def openness_speed_speed)
qed

lemma zoom_rule_fires_iff:
  "zoom_rule_fires t v \<longleftrightarrow>
     speed_triggers t \<or> (current_gesture t = ZOOM_IN \<and> v > 0.7)
     \<or> (current_gesture t = ZOOM_OUT \<and> v < 0.3)"
  by (simp only: zoom_rule_fires_def speed_triggers_def)

lemma classify_zoom_rule:
  assumes "zoom_rule_fires t v"
  shows "\<exists>g. (g = ZOOM_IN \<or> g = ZOOM_OUT) \<and> classify t h v sx sy c = Inr (emit t g None)"
proof (cases "speed_triggers t")
  case True
  then obtain w where w: "speed t = Some w"
    and tr: "w > ZOOM_SPEED_THRESHOLD \<or> w < - ZOOM_SPEED_THRESHOLD"
    by (cases "speed t") (simp_all add: speed_triggers_def)
  show ?thesis
  proof (cases "w > ZOOM_SPEED_THRESHOLD")
    case True
    from classify_speed_zoom_in[OF w True] show ?thesis by blast
  next
    case False
    with tr have "w < - ZOOM_SPEED_THRESHOLD" by simp
    from classify_speed_zoom_out[OF w False this] show ?thesis by blast
  qed
next
  case False
  note c = classify_no_trigger[OF False, of h v sx sy c]
  from assms False have s: "(current_gesture t = ZOOM_IN \<and> v > 0.7)
     \<or> (current_gesture t = ZOOM_OUT \<and> v < 0.3)"
    by (simp only: zoom_rule_fires_iff) simp
  show ?thesis
  proof (cases "current_gesture t = ZOOM_IN \<and> v > 0.7")
    case True
    then have tt: "(current_gesture t = ZOOM_IN \<and> v > 0.7) = True" by simp
    have "classify_tail t v sx sy c (speed t) = Inr (emit t ZOOM_IN None)"
      unfolding classify_tail_def tt by (simp only: if_True)
    with c show ?thesis by auto
  next
    case False
    with s have o: "current_gesture t = ZOOM_OUT \<and> v < 0.3" by blast
    from False have f: "(current_gesture t = ZOOM_IN \<and> v > 0.7) = False" by simp
    from o have oo: "(current_gesture t = ZOOM_OUT \<and> v < 0.3) = True" by simp
    have "classify_tail t v sx sy c (speed t) = Inr (emit t ZOOM_OUT None)"
      unfolding classify_tail_def f oo by (simp only: if_True if_False)
    with c show ?thesis by auto
  qed
qed

text \<open>The state on which rule 3 decides: the zoom-end timestamp re-recorded or kept.\<close>

definition gate_state :: "GestureRecogniser \<Rightarrow> real \<Rightarrow> GestureRecogniser" where
  "gate_state t c = (if zoom_ends t then t\<lparr>zoom_end_time := c\<rparr> else t)"

lemma gate_state_sel [simp]:
  "prev_x (gate_state t c) = prev_x t"
  "prev_y (gate_state t c) = prev_y t"
  "smooth_x (gate_state t c) = smooth_x t"
  "smooth_y (gate_state t c) = smooth_y t"
  "smooth_z (gate_state t c) = smooth_z t"
  "openness_history (gate_state t c) = openness_history t"
  "candidate (gate_state t c) = candidate t"
  "gesture_streak (gate_state t c) = gesture_streak t"
  "current_gesture (gate_state t c) = current_gesture t"
  "zoom_end_time (gate_state t c) = (if zoom_ends t then c else zoom_end_time t)"
  by (simp_all add: gate_state_def)

lemma classify_tail_sustain_off:
  assumes "\<not> zoom_rule_fires t v"
  shows "classify_tail t v sx sy c sp =
     (let self1 =
            (if (current_gesture t = ZOOM_IN \<or> current_gesture t = ZOOM_OUT)
                \<and> (case sp of None \<Rightarrow> False | Some v \<Rightarrow> \<bar>v\<bar> < ZOOM_SPEED_THRESHOLD)
             then t\<lparr>zoom_end_time := c\<rparr> else t)
      in if c - zoom_end_time self1 < ORBIT_AFTER_ZOOM_COOLDOWN
         then Inr (emit self1 IDLE None)
         else
           (case (if v > 0.55 then prev_x self1 else None) of
              Some px \<Rightarrow>
                (case prev_y self1 of
                   None \<Rightarrow> Inl TypeError
                 | Some py \<Rightarrow>
                     (let dx = sx - px; dy = sy - py; dist = hypot dx dy
                      in if dist > ORBIT_DEAD_ZONE
                         then Inr (emit self1 ORBIT (Some (dx, dy)))
                         else Inr (emit self1 IDLE None)))
            | None \<Rightarrow> Inr (emit self1 IDLE None)))"
proof -
  from assms have a: "(current_gesture t = ZOOM_IN \<and> v > 0.7) = False"
    and b: "(current_gesture t = ZOOM_OUT \<and> v < 0.3) = False"
    by (auto simp: zoom_rule_fires_def)
  show ?thesis
    unfolding classify_tail_def a b by (simp only: if_False)
qed

lemma classify_tail_gate:
  assumes nz: "\<not> zoom_rule_fires t v"
    and w: "c - zoom_end_time (gate_state t c) < ORBIT_AFTER_ZOOM_COOLDOWN"
  shows "classify_tail t v sx sy c (speed t) = Inr (emit (gate_state t c) IDLE None)"
proof -
  have g: "(if (current_gesture t = ZOOM_IN \<or> current_gesture t = ZOOM_OUT)
                \<and> (case speed t of None \<Rightarrow> False | Some v \<Rightarrow> \<bar>v\<bar> < ZOOM_SPEED_THRESHOLD)
             then t\<lparr>zoom_end_time := c\<rparr> else t) = gate_state t c"
    by (simp only: gate_state_def zoom_ends_def)
  show ?thesis
    unfolding classify_tail_sustain_off[OF nz] g Let_def using w by (simp only: if_True)
qed

lemma classify_tail_open_unset:
  assumes nz: "\<not> zoom_rule_fires t v"
    and w: "\<not> c - zoom_end_time (gate_state t c) < ORBIT_AFTER_ZOOM_COOLDOWN"
    and p: "prev_x t = None"
  shows "classify_tail t v sx sy c (speed t) = Inr (emit (gate_state t c) IDLE None)"
proof -
  have g: "(if (current_gesture t = ZOOM_IN \<or> current_gesture t = ZOOM_OUT)
                \<and> (case speed t of None \<Rightarrow> False | Some v \<Rightarrow> \<bar>v\<bar> < ZOOM_SPEED_THRESHOLD)
             then t\<lparr>zoom_end_time := c\<rparr> else t) = gate_state t c"
    by (simp only: gate_state_def zoom_ends_def)
  have w': "(c - zoom_end_time (gate_state t c) < ORBIT_AFTER_ZOOM_COOLDOWN) = False"
    using w by simp
  note d = classify_tail_sustain_off[OF nz, of sx sy c "speed t", unfolded g Let_def w' if_False]
  show ?thesis unfolding d using p by simp
qed

lemma classify_tail_open_set:
  assumes nz: "\<not> zoom_rule_fires t v"
    and w: "\<not> c - zoom_end_time (gate_state t c) < ORBIT_AFTER_ZOOM_COOLDOWN"
    and px: "prev_x t = Some px" and py: "prev_y t = Some py"
  shows "classify_tail t v sx sy c (speed t) =
     Inr (if v > 0.55 \<and> hypot (sx - px) (sy - py) > ORBIT_DEAD_ZONE
          then emit (gate_state t c) ORBIT (Some (sx - px, sy - py))
          else emit (gate_state t c) IDLE None)"
proof -
  have g: "(if (current_gesture t = ZOOM_IN \<or> current_gesture t = ZOOM_OUT)
                \<and> (case speed t of None \<Rightarrow> False | Some v \<Rightarrow> \<bar>v\<bar> < ZOOM_SPEED_THRESHOLD)
             then t\<lparr>zoom_end_time := c\<rparr> else t) = gate_state t c"
    by (simp only: gate_state_def zoom_ends_def)
  have w': "(c - zoom_end_time (gate_state t c) < ORBIT_AFTER_ZOOM_COOLDOWN) = False"
    using w by simp
  note d = classify_tail_sustain_off[OF nz, of sx sy c "speed t", unfolded g Let_def w' if_False]
  show ?thesis unfolding d using px py by simp
qed

text \<open>What a presence tick returns once the classifier has chosen state, candidate and payload.\<close>

definition tick_result ::
  "GestureRecogniser \<Rightarrow> Gesture \<Rightarrow> (real \<times> real) option \<Rightarrow> real \<Rightarrow> real \<Rightarrow> real \<Rightarrow> real \<Rightarrow>
   GestureRecogniser \<times> Gesture \<times> (real \<times> real) option" where
  "tick_result t g p sx sy u v =
     (stored (fst (emit t g p)) sx sy u v, current_gesture (fst (emit t g p)), p)"

lemma tick_result_sel [simp]:
  "candidate (fst (tick_result t g p sx sy u v)) = g"
  "gesture_streak (fst (tick_result t g p sx sy u v)) =
     (if g = candidate t then gesture_streak t + 1 else 1)"
  "current_gesture (fst (tick_result t g p sx sy u v)) =
     (if GESTURE_CONFIDENCE_FRAMES \<le> (if g = candidate t then gesture_streak t + 1 else 1)
      then g else current_gesture t)"
  "zoom_end_time (fst (tick_result t g p sx sy u v)) = zoom_end_time t"
  "openness_history (fst (tick_result t g p sx sy u v)) = deque_append (openness_history t) (u, v)"
  "prev_x (fst (tick_result t g p sx sy u v)) = Some sx"
  "prev_y (fst (tick_result t g p sx sy u v)) = Some sy"
  "smooth_x (fst (tick_result t g p sx sy u v)) = smooth_x t"
  "smooth_y (fst (tick_result t g p sx sy u v)) = smooth_y t"
  "smooth_z (fst (tick_result t g p sx sy u v)) = smooth_z t"
  "fst (snd (tick_result t g p sx sy u v)) =
     (if GESTURE_CONFIDENCE_FRAMES \<le> (if g = candidate t then gesture_streak t + 1 else 1)
      then g else current_gesture t)"
  "snd (snd (tick_result t g p sx sy u v)) = p"
  by (simp_all add: tick_result_def emit_streak emit_current)

lemma update_emit:
  assumes inv: "unset_together s"
    and opn: "hand_openness h = Inr v"
    and ctr: "fingertip_center h = Inr (cx, cy, cz)"
    and cl: "classify (smoothed s cx cy cz) h v (ema_value (smooth_x s) cx) (ema_value (smooth_y s) cy) c
               = Inr (emit t g p)"
  shows "update s (Some h) c u =
           Inr (tick_result t g p (ema_value (smooth_x s) cx) (ema_value (smooth_y s) cy) u v)"
proof -
  obtain t2 g2 p2 where e: "emit t g p = (t2, g2, p2)" by (cases "emit t g p")
  from e have "g2 = current_gesture t2" "p2 = p"
    using emit_sel(10)[of t g p] emit_sel(9)[of t g p] by simp_all
  with e show ?thesis
    unfolding update_classify[OF inv opn ctr] cl tick_result_def by simp
qed

lemma speed_smoothed [simp]: "speed (smoothed s x y z) = speed s"
  by (rule speed_history) simp

lemma zoom_rule_fires_smoothed [simp]: "zoom_rule_fires (smoothed s x y z) v = zoom_rule_fires s v"
  by (simp add: zoom_rule_fires_def)

lemma speed_triggers_smoothed [simp]: "speed_triggers (smoothed s x y z) = speed_triggers s"
  by (simp add: speed_triggers_def)

lemma zoom_ends_smoothed [simp]: "zoom_ends (smoothed s x y z) = zoom_ends s"
  by (simp add: zoom_ends_def)

lemma update_zoom_in:
  assumes inv: "unset_together s"
    and opn: "hand_openness h = Inr v"
    and ctr: "fingertip_center h = Inr (cx, cy, cz)"
    and sp: "speed s = Some w" and w: "w > ZOOM_SPEED_THRESHOLD"
  shows "update s (Some h) c u =
           Inr (tick_result (smoothed s cx cy cz) ZOOM_IN None
                  (ema_value (smooth_x s) cx) (ema_value (smooth_y s) cy) u v)"
proof -
  have "speed (smoothed s cx cy cz) = Some w" using sp by simp
  from update_emit[OF inv opn ctr classify_speed_zoom_in[OF this w]] show ?thesis .
qed

lemma update_zoom_rule:
  assumes inv: "unset_together s"
    and opn: "hand_openness h = Inr v"
    and ctr: "fingertip_center h = Inr (cx, cy, cz)"
    and z: "zoom_rule_fires s v"
  shows "\<exists>g. (g = ZOOM_IN \<or> g = ZOOM_OUT) \<and>
           update s (Some h) c u =
             Inr (tick_result (smoothed s cx cy cz) g None
                    (ema_value (smooth_x s) cx) (ema_value (smooth_y s) cy) u v)"
proof -
  have "zoom_rule_fires (smoothed s cx cy cz) v" using z by simp
  from classify_zoom_rule[OF this] obtain g where g: "g = ZOOM_IN \<or> g = ZOOM_OUT"
    and cl: "classify (smoothed s cx cy cz) h v (ema_value (smooth_x s) cx)
               (ema_value (smooth_y s) cy) c = Inr (emit (smoothed s cx cy cz) g None)"
    by blast
  from update_emit[OF inv opn ctr cl] g show ?thesis by blast
qed

lemma no_trigger_of_no_rule: "\<not> zoom_rule_fires t v \<Longrightarrow> \<not> speed_triggers t"
  by (simp add: zoom_rule_fires_iff)

lemma update_gate:
  assumes inv: "unset_together s"
    and opn: "hand_openness h = Inr v"
    and ctr: "fingertip_center h = Inr (cx, cy, cz)"
    and nz: "\<not> zoom_rule_fires s v"
    and w: "c - (if zoom_ends s then c else zoom_end_time s) < ORBIT_AFTER_ZOOM_COOLDOWN"
  shows "update s (Some h) c u =
           Inr (tick_result (gate_state (smoothed s cx cy cz) c) IDLE None
                  (ema_value (smooth_x s) cx) (ema_value (smooth_y s) cy) u v)"
proof -
  let ?t = "smoothed s cx cy cz"
  have nz': "\<not> zoom_rule_fires ?t v" using nz by simp
  have w': "c - zoom_end_time (gate_state ?t c) < ORBIT_AFTER_ZOOM_COOLDOWN"
    using w by (cases "zoom_ends s") simp_all
  have "classify ?t h v (ema_value (smooth_x s) cx) (ema_value (smooth_y s) cy) c
          = Inr (emit (gate_state ?t c) IDLE None)"
    unfolding classify_no_trigger[OF no_trigger_of_no_rule[OF nz']]
    by (rule classify_tail_gate[OF nz' w'])
  from update_emit[OF inv opn ctr this] show ?thesis .
qed

lemma update_open:
  assumes inv: "unset_together s"
    and opn: "hand_openness h = Inr v"
    and ctr: "fingertip_center h = Inr (cx, cy, cz)"
    and nz: "\<not> zoom_rule_fires s v"
    and w: "\<not> c - (if zoom_ends s then c else zoom_end_time s) < ORBIT_AFTER_ZOOM_COOLDOWN"
  shows "update s (Some h) c u =
           Inr (if orbit_qualifying s h
                then tick_result (gate_state (smoothed s cx cy cz) c) ORBIT (displacement s h)
                       (ema_value (smooth_x s) cx) (ema_value (smooth_y s) cy) u v
                else tick_result (gate_state (smoothed s cx cy cz) c) IDLE None
                       (ema_value (smooth_x s) cx) (ema_value (smooth_y s) cy) u v)"
proof -
  let ?t = "smoothed s cx cy cz"
  let ?sx = "ema_value (smooth_x s) cx" and ?sy = "ema_value (smooth_y s) cy"
  have nz': "\<not> zoom_rule_fires ?t v" using nz by simp
  have w': "\<not> c - zoom_end_time (gate_state ?t c) < ORBIT_AFTER_ZOOM_COOLDOWN"
    using w by (cases "zoom_ends s") simp_all
  note nt = classify_no_trigger[OF no_trigger_of_no_rule[OF nz'], of h v ?sx ?sy c]
  show ?thesis
  proof (cases "prev_x s")
    case None
    then have nq: "\<not> orbit_qualifying s h" by (simp add: orbit_qualifying_def displacement_def ctr)
    from None have "prev_x ?t = None" by simp
    from classify_tail_open_unset[OF nz' w' this, of ?sx ?sy] nt
    have "classify ?t h v ?sx ?sy c = Inr (emit (gate_state ?t c) IDLE None)" by simp
    from update_emit[OF inv opn ctr this] nq show ?thesis by simp
  next
    case (Some px)
    with inv obtain py where py: "prev_y s = Some py" by (auto simp: unset_together_def)
    have d: "displacement s h = Some (?sx - px, ?sy - py)"
      by (simp add: displacement_def ctr Some py)
    have q: "orbit_qualifying s h \<longleftrightarrow> v > 0.55 \<and> hypot (?sx - px) (?sy - py) > ORBIT_DEAD_ZONE"
      by (simp add: orbit_qualifying_def d opn)
    have px': "prev_x ?t = Some px" and py': "prev_y ?t = Some py" using Some py by simp_all
    note cl = classify_tail_open_set[OF nz' w' px' py', of ?sx ?sy, folded nt q]
    show ?thesis
    proof (cases "orbit_qualifying s h")
      case True
      with cl have "classify ?t h v ?sx ?sy c =
        Inr (emit (gate_state ?t c) ORBIT (Some (?sx - px, ?sy - py)))" by simp
      from update_emit[OF inv opn ctr this] True d show ?thesis by simp
    next
      case False
      with cl have "classify ?t h v ?sx ?sy c = Inr (emit (gate_state ?t c) IDLE None)"
        by simp
      from update_emit[OF inv opn ctr this] False show ?thesis by simp
    qed
  qed
qed

lemma speed_eq:
  "speed s =
     (if length (openness_history s) < 4
         \<or> fst (last (openness_history s)) - fst (hd (openness_history s)) < 0.05
      then None
      else Some ((snd (last (openness_history s)) - snd (hd (openness_history s)))
                 / (fst (last (openness_history s)) - fst (hd (openness_history s)))))"
  by (simp add: speed_def openness_speed_eq)

lemma update_no_rule:
  assumes inv: "unset_together s"
    and opn: "hand_openness h = Inr v"
    and ctr: "fingertip_center h = Inr (cx, cy, cz)"
    and nz: "\<not> zoom_rule_fires s v"
  shows "\<exists>g p. (g = IDLE \<or> g = ORBIT) \<and>
           update s (Some h) c u =
             Inr (tick_result (gate_state (smoothed s cx cy cz) c) g p
                    (ema_value (smooth_x s) cx) (ema_value (smooth_y s) cy) u v)"
proof (cases "c - (if zoom_ends s then c else zoom_end_time s) < ORBIT_AFTER_ZOOM_COOLDOWN")
  case True
  from update_gate[OF inv opn ctr nz True] show ?thesis by blast
next
  case False
  from update_open[OF inv opn ctr nz False, of u] show ?thesis
    by (cases "orbit_qualifying s h") auto
qed

lemma complete_length: "complete h \<Longrightarrow> 21 \<le> length (landmarks h)"
  by (simp add: complete_def)

lemma complete_snapshot:
  assumes "complete h"
  obtains v cx cy cz where "hand_openness h = Inr v" "fingertip_center h = Inr (cx, cy, cz)"
  using hand_openness_eq[OF assms] fingertip_center_eq[OF complete_length[OF assms]] by blast

text \<open>A tick classified with unknown speed while no zoom is confirmed.\<close>

lemma quiet_tick:
  assumes inv: "unset_together s"
    and opn: "hand_openness h = Inr v"
    and len: "21 \<le> length (landmarks h)"
    and sp: "speed s = None"
    and cur: "current_gesture s \<noteq> ZOOM_IN" "current_gesture s \<noteq> ZOOM_OUT"
  shows "\<exists>s' g p. update s (Some h) c u = Inr (s', g, p) \<and> unset_together s'
           \<and> openness_history s' = deque_append (openness_history s) (u, v)
           \<and> candidate s' \<noteq> ZOOM_IN \<and> candidate s' \<noteq> ZOOM_OUT
           \<and> current_gesture s' \<noteq> ZOOM_IN \<and> current_gesture s' \<noteq> ZOOM_OUT"
proof -
  obtain cx cy cz where ctr: "fingertip_center h = Inr (cx, cy, cz)"
    using fingertip_center_eq[OF len] by blast
  have nz: "\<not> zoom_rule_fires s v" using sp cur by (simp add: zoom_rule_fires_def)
  from update_no_rule[OF inv opn ctr nz, of c u] obtain g p where g: "g = IDLE \<or> g = ORBIT"
    and u: "update s (Some h) c u =
             Inr (tick_result (gate_state (smoothed s cx cy cz) c) g p
                    (ema_value (smooth_x s) cx) (ema_value (smooth_y s) cy) u v)" by blast
  let ?r = "tick_result (gate_state (smoothed s cx cy cz) c) g p
                    (ema_value (smooth_x s) cx) (ema_value (smooth_y s) cy) u v"
  have u': "update s (Some h) c u = Inr (fst ?r, fst (snd ?r), snd (snd ?r))"
    unfolding u by (simp only: prod.collapse)
  have i: "unset_together (fst ?r)" by (rule update_keeps_unset_together[OF inv u'])
  have h: "openness_history (fst ?r) = deque_append (openness_history s) (u, v)" by simp
  have c1: "candidate (fst ?r) \<noteq> ZOOM_IN \<and> candidate (fst ?r) \<noteq> ZOOM_OUT" using g by auto
  have c2: "current_gesture (fst ?r) \<noteq> ZOOM_IN \<and> current_gesture (fst ?r) \<noteq> ZOOM_OUT"
    using g cur by auto
  from u' i h c1 c2 show ?thesis by blast
qed

text \<open>A tick classified with the speed above the threshold.\<close>

lemma zoom_in_tick:
  assumes inv: "unset_together s"
    and opn: "hand_openness h = Inr v"
    and len: "21 \<le> length (landmarks h)"
    and sp: "speed s = Some w" and w: "w > ZOOM_SPEED_THRESHOLD"
  shows "\<exists>s' g. update s (Some h) c u = Inr (s', g, None) \<and> unset_together s'
           \<and> openness_history s' = deque_append (openness_history s) (u, v)
           \<and> candidate s' = ZOOM_IN
           \<and> gesture_streak s' = (if candidate s = ZOOM_IN then gesture_streak s + 1 else 1)
           \<and> g = current_gesture s'
           \<and> current_gesture s' =
               (if GESTURE_CONFIDENCE_FRAMES \<le> gesture_streak s' then ZOOM_IN else current_gesture s)"
proof -
  obtain cx cy cz where ctr: "fingertip_center h = Inr (cx, cy, cz)"
    using fingertip_center_eq[OF len] by blast
  let ?r = "tick_result (smoothed s cx cy cz) ZOOM_IN None
                  (ema_value (smooth_x s) cx) (ema_value (smooth_y s) cy) u v"
  have "snd (snd ?r) = None" by simp
  then have "?r = (fst ?r, fst (snd ?r), None)" by (metis prod.collapse)
  with update_zoom_in[OF inv opn ctr sp w, of c u]
  have u': "update s (Some h) c u = Inr (fst ?r, fst (snd ?r), None)" by (simp only:)
  have i: "unset_together (fst ?r)" by (rule update_keeps_unset_together[OF inv u'])
  show ?thesis
    using u' i by (intro exI[of _ "fst ?r"] exI[of _ "fst (snd ?r)"]) auto
qed

lemma deque_append_short: "length d < 10 \<Longrightarrow> deque_append d v = d @ [v]"
  by (simp add: deque_append_def)

lemma speed_known:
  assumes "openness_history s = (t0, o0) # mid @ [(t1, o1)]" and "2 \<le> length mid"
    and "0.05 \<le> t1 - t0"
  shows "speed s = Some ((o1 - o0) / (t1 - t0))"
  using assms by (simp add: speed_eq)

lemma speed_unknown: "length (openness_history s) < 4 \<Longrightarrow> speed s = None"
  by (simp add: speed_eq)

lemma rise_above_threshold:
  assumes "0.05 \<le> (d::real)" and "0.8 * d < r"
  shows "ZOOM_SPEED_THRESHOLD < r / d"
proof -
  from assms(1) have "0 < d" by simp
  with assms(2) show ?thesis by (simp add: ZOOM_SPEED_THRESHOLD_def pos_less_divide_eq)
qed

subsection \<open>Inside and after the cooldown\<close>

lemma cooldown_positive: "0 < ORBIT_AFTER_ZOOM_COOLDOWN"
  by (simp add: ORBIT_AFTER_ZOOM_COOLDOWN_def)

text \<open>A presence tick whose clock reading is within the cooldown of the zoom-end timestamp.\<close>

lemma window_tick:
  assumes inv: "unset_together s"
    and opn: "hand_openness h = Inr v"
    and len: "21 \<le> length (landmarks h)"
    and w: "c - zoom_end_time s < ORBIT_AFTER_ZOOM_COOLDOWN"
  shows "\<exists>s' g. update s (Some h) c u = Inr (s', g, None) \<and> unset_together s'
           \<and> candidate s' \<noteq> ORBIT
           \<and> (\<not> zoom_rule_fires s v \<longrightarrow> candidate s' = IDLE)
           \<and> g = current_gesture s'
           \<and> (current_gesture s' = current_gesture s \<or> current_gesture s' = candidate s')
           \<and> (zoom_end_time s' = zoom_end_time s \<or> zoom_end_time s' = c)
           \<and> (zoom_ends s \<and> \<not> zoom_rule_fires s v \<longrightarrow> zoom_end_time s' = c)"
proof -
  obtain cx cy cz where ctr: "fingertip_center h = Inr (cx, cy, cz)"
    using fingertip_center_eq[OF len] by blast
  let ?sx = "ema_value (smooth_x s) cx" and ?sy = "ema_value (smooth_y s) cy"
  show ?thesis
  proof (cases "zoom_rule_fires s v")
    case True
    from update_zoom_rule[OF inv opn ctr True, of c u] obtain g0
      where g0: "g0 = ZOOM_IN \<or> g0 = ZOOM_OUT"
        and u: "update s (Some h) c u = Inr (tick_result (smoothed s cx cy cz) g0 None ?sx ?sy u v)"
      by blast
    let ?r = "tick_result (smoothed s cx cy cz) g0 None ?sx ?sy u v"
    have "snd (snd ?r) = None" by simp
    then have "?r = (fst ?r, fst (snd ?r), None)" by (metis prod.collapse)
    with u have u': "update s (Some h) c u = Inr (fst ?r, fst (snd ?r), None)" by (simp only:)
    have i: "unset_together (fst ?r)" by (rule update_keeps_unset_together[OF inv u'])
    show ?thesis
      using u' i g0 True by (intro exI[of _ "fst ?r"] exI[of _ "fst (snd ?r)"]) auto
  next
    case False
    have w': "c - (if zoom_ends s then c else zoom_end_time s) < ORBIT_AFTER_ZOOM_COOLDOWN"
      using w cooldown_positive by (cases "zoom_ends s") simp_all
    let ?r = "tick_result (gate_state (smoothed s cx cy cz) c) IDLE None ?sx ?sy u v"
    have "snd (snd ?r) = None" by simp
    then have "?r = (fst ?r, fst (snd ?r), None)" by (metis prod.collapse)
    with update_gate[OF inv opn ctr False w', of u]
    have u': "update s (Some h) c u = Inr (fst ?r, fst (snd ?r), None)" by (simp only:)
    have i: "unset_together (fst ?r)" by (rule update_keeps_unset_together[OF inv u'])
    show ?thesis
      using u' i False by (intro exI[of _ "fst ?r"] exI[of _ "fst (snd ?r)"]) auto
  qed
qed

lemma absent_tick:
  "\<exists>s'. update s None c u = Inr (s', current_gesture s', None)
        \<and> (unset_together s \<longrightarrow> unset_together s')
        \<and> candidate s' = IDLE
        \<and> (current_gesture s' = current_gesture s \<or> current_gesture s' = IDLE)
        \<and> zoom_end_time s' = zoom_end_time s"
  by (intro exI[of _ "fst (emit (reset_smooth s) IDLE None)"])
     (auto simp: update_absent unset_together_def emit_current)

text \<open>Clock reading of a tick: the one \<^verbatim>\<open>_classify\<close> takes.\<close>

definition clock :: "tick \<Rightarrow> real" where
  "clock t = fst (snd t)"

lemma window_run:
  assumes "unset_together s" and "current_gesture s \<noteq> ORBIT" and "z \<le> zoom_end_time s"
    and "\<forall>t \<in> set ticks. well_formed (fst t) \<and> z \<le> clock t
            \<and> clock t - z < ORBIT_AFTER_ZOOM_COOLDOWN"
  shows "\<exists>s' outs. run s ticks = Inr (s', outs) \<and> length outs = length ticks
           \<and> unset_together s' \<and> current_gesture s' \<noteq> ORBIT \<and> z \<le> zoom_end_time s'
           \<and> (ticks \<noteq> [] \<longrightarrow> candidate s' \<noteq> ORBIT)
           \<and> (\<forall>out \<in> set outs. fst out \<noteq> ORBIT \<and> snd out = None)"
  using assms
proof (induction ticks rule: rev_induct)
  case Nil
  then show ?case by simp
next
  case (snoc t ticks)
  obtain hand c u where t: "t = (hand, c, u)" by (cases t)
  from snoc.prems(4) t have wf: "well_formed hand" and zc: "z \<le> c"
    and cw: "c - z < ORBIT_AFTER_ZOOM_COOLDOWN" by (simp_all add: clock_def)
  from snoc.prems(4) have "\<forall>t \<in> set ticks. well_formed (fst t) \<and> z \<le> clock t
            \<and> clock t - z < ORBIT_AFTER_ZOOM_COOLDOWN" by simp
  from snoc.IH[OF snoc.prems(1,2,3) this] obtain s1 outs where
    r: "run s ticks = Inr (s1, outs)" and l: "length outs = length ticks"
    and i1: "unset_together s1" and c1: "current_gesture s1 \<noteq> ORBIT"
    and z1: "z \<le> zoom_end_time s1"
    and o1: "\<forall>out \<in> set outs. fst out \<noteq> ORBIT \<and> snd out = None" by blast
  have "\<exists>s2 g. update s1 hand c u = Inr (s2, g, None) \<and> unset_together s2
          \<and> candidate s2 \<noteq> ORBIT \<and> g = current_gesture s2 \<and> current_gesture s2 \<noteq> ORBIT
          \<and> z \<le> zoom_end_time s2"
  proof (cases hand)
    case None
    from absent_tick[of s1 c u] i1 c1 z1 None show ?thesis by auto
  next
    case (Some h)
    with wf have cpl: "complete h" by (simp add: well_formed_def)
    note len = complete_length[OF cpl]
    obtain v where opn: "hand_openness h = Inr v" using hand_openness_eq[OF cpl] by blast
    have "c - zoom_end_time s1 < ORBIT_AFTER_ZOOM_COOLDOWN" using cw z1 by simp
    from window_tick[OF i1 opn len this, of u] obtain s2 g where
      "update s1 (Some h) c u = Inr (s2, g, None)" "unset_together s2" "candidate s2 \<noteq> ORBIT"
      "g = current_gesture s2"
      "current_gesture s2 = current_gesture s1 \<or> current_gesture s2 = candidate s2"
      "zoom_end_time s2 = zoom_end_time s1 \<or> zoom_end_time s2 = c" by blast
    with Some c1 z1 zc show ?thesis by (intro exI[of _ s2] exI[of _ g]) auto
  qed
  then obtain s2 g where u2: "update s1 hand c u = Inr (s2, g, None)"
    and p2: "unset_together s2" "candidate s2 \<noteq> ORBIT" "g = current_gesture s2"
      "current_gesture s2 \<noteq> ORBIT" "z \<le> zoom_end_time s2" by blast
  have "run s (ticks @ [t]) = Inr (s2, outs @ [(g, None)])"
    by (simp add: t run_snoc r u2)
  with l o1 p2 show ?case by auto
qed

text \<open>The state a fresh recogniser is in after a sequence of ticks (the fresh state if one raised).\<close>

definition state_after :: "tick list \<Rightarrow> GestureRecogniser" where
  "state_after ticks = (case run init ticks of Inl e \<Rightarrow> init | Inr (s, outs) \<Rightarrow> s)"

lemma state_after_reachable: "reachable (state_after ticks)"
proof (cases "run init ticks")
  case (Inl e)
  then show ?thesis by (simp add: state_after_def reachable_init)
next
  case (Inr r)
  obtain s outs where "r = (s, outs)" by (cases r)
  with Inr have r: "run init ticks = Inr (s, outs)" by simp
  from run_reachable[OF reachable_init r] r show ?thesis by (simp add: state_after_def)
qed

lemma zoom_rule_init: "\<not> zoom_rule_fires init v"
  by (simp add: zoom_rule_fires_def speed_eq init_def)

lemma first_tick_early:
  assumes cpl: "complete h" and c: "c < ORBIT_AFTER_ZOOM_COOLDOWN"
  shows "\<exists>s'. update init (Some h) c u = Inr (s', IDLE, None) \<and> candidate s' = IDLE"
proof -
  note len = complete_length[OF cpl]
  obtain v where opn: "hand_openness h = Inr v" using hand_openness_eq[OF cpl] by blast
  have w: "c - zoom_end_time init < ORBIT_AFTER_ZOOM_COOLDOWN" using c by (simp add: init_def)
  from window_tick[OF init_unset_together opn len w, of u] zoom_rule_init[of v]
  obtain s' g where u: "update init (Some h) c u = Inr (s', g, None)"
    and k: "candidate s' = IDLE" and g: "g = current_gesture s'"
    and cur: "current_gesture s' = current_gesture init \<or> current_gesture s' = candidate s'"
    by blast
  from cur k have "current_gesture s' = IDLE" by (auto simp: init_def)
  with u k g show ?thesis by auto
qed

lemma early_run:
  assumes "\<forall>t \<in> set ticks. well_formed (fst t) \<and> 0 \<le> clock t
              \<and> clock t < ORBIT_AFTER_ZOOM_COOLDOWN"
  shows "\<exists>s outs. run init ticks = Inr (s, outs) \<and> length outs = length ticks
           \<and> (ticks \<noteq> [] \<longrightarrow> candidate s \<noteq> ORBIT) \<and> current_gesture s \<noteq> ORBIT
           \<and> (\<forall>out \<in> set outs. fst out \<noteq> ORBIT \<and> snd out = None)
           \<and> (\<forall>h' c' u' v. 21 \<le> length (landmarks h') \<longrightarrow> hand_openness h' = Inr v \<longrightarrow>
                 0 \<le> c' \<longrightarrow> c' < ORBIT_AFTER_ZOOM_COOLDOWN \<longrightarrow> \<not> zoom_rule_fires s v \<longrightarrow>
                 (\<exists>s' g. update s (Some h') c' u' = Inr (s', g, None) \<and> candidate s' = IDLE))"
proof -
  have a: "current_gesture init \<noteq> ORBIT" and b: "0 \<le> zoom_end_time init"
    by (simp_all add: init_def)
  from assms have "\<forall>t \<in> set ticks. well_formed (fst t) \<and> 0 \<le> clock t
            \<and> clock t - 0 < ORBIT_AFTER_ZOOM_COOLDOWN" by simp
  from window_run[OF init_unset_together a b this] obtain s outs where
    r: "run init ticks = Inr (s, outs)" "length outs = length ticks"
    and i: "unset_together s" and cur: "current_gesture s \<noteq> ORBIT" and z: "0 \<le> zoom_end_time s"
    and k: "ticks \<noteq> [] \<longrightarrow> candidate s \<noteq> ORBIT"
    and o: "\<forall>out \<in> set outs. fst out \<noteq> ORBIT \<and> snd out = None" by blast
  have "\<exists>s' g. update s (Some h') c' u' = Inr (s', g, None) \<and> candidate s' = IDLE"
    if len: "21 \<le> length (landmarks h')" and opn: "hand_openness h' = Inr v"
      and c: "0 \<le> c'" "c' < ORBIT_AFTER_ZOOM_COOLDOWN" and nz: "\<not> zoom_rule_fires s v"
    for h' c' u' v
  proof -
    have "c' - zoom_end_time s < ORBIT_AFTER_ZOOM_COOLDOWN" using c z by simp
    from window_tick[OF i opn len this, of u'] nz show ?thesis by blast
  qed
  with r cur k o show ?thesis by blast
qed

text \<open>
  A tick that passes every rule before the Orbit rule and qualifies for Orbit: a
  complete snapshot, no zoom rule fires, the zoom-end timestamp is not re-recorded, the
  cooldown has elapsed, and the snapshot is Orbit-qualifying.
\<close>

definition orbit_tick :: "GestureRecogniser \<Rightarrow> HandData \<Rightarrow> real \<Rightarrow> bool" where
  "orbit_tick s h c \<longleftrightarrow>
     21 \<le> length (landmarks h)
     \<and> (case hand_openness h of Inl e \<Rightarrow> False | Inr v \<Rightarrow> \<not> zoom_rule_fires s v)
     \<and> \<not> zoom_ends s
     \<and> ORBIT_AFTER_ZOOM_COOLDOWN \<le> c - zoom_end_time s
     \<and> orbit_qualifying s h"

text \<open>Consecutive such ticks, each judged in the state the previous one left.\<close>

fun all_orbit_ticks :: "GestureRecogniser \<Rightarrow> tick list \<Rightarrow> bool" where
  "all_orbit_ticks s [] = True"
| "all_orbit_ticks s ((hand, c, u) # ticks) =
     (case hand of
        None \<Rightarrow> False
      | Some h \<Rightarrow>
          orbit_tick s h c
          \<and> (case update s hand c u of
                Inl e \<Rightarrow> False
              | Inr (s', g, p) \<Rightarrow> all_orbit_ticks s' ticks))"

text \<open>
  The displacement \<open>(sx - prev_x, sy - prev_y)\<close> at each tick of a run, each taken in the
  state the previous tick left.
\<close>

fun displacements :: "GestureRecogniser \<Rightarrow> tick list \<Rightarrow> (real \<times> real) option list" where
  "displacements s [] = []"
| "displacements s ((hand, c, u) # ticks) =
     (case hand of None \<Rightarrow> None | Some h \<Rightarrow> displacement s h)
     # (case update s hand c u of
          Inl e \<Rightarrow> []
        | Inr (s', g, p) \<Rightarrow> displacements s' ticks)"

lemma orbit_tick_step:
  assumes inv: "unset_together s" and ot: "orbit_tick s h c"
  shows "\<exists>s' g d. update s (Some h) c u = Inr (s', g, Some d) \<and> displacement s h = Some d
           \<and> unset_together s' \<and> candidate s' = ORBIT
           \<and> gesture_streak s' = (if candidate s = ORBIT then gesture_streak s + 1 else 1)
           \<and> g = current_gesture s'
           \<and> current_gesture s' =
               (if GESTURE_CONFIDENCE_FRAMES \<le> gesture_streak s' then ORBIT else current_gesture s)"
proof -
  from ot have len: "21 \<le> length (landmarks h)" by (simp add: orbit_tick_def)
  from ot obtain v where opn: "hand_openness h = Inr v"
    by (cases "hand_openness h") (simp_all add: orbit_tick_def)
  obtain cx cy cz where ctr: "fingertip_center h = Inr (cx, cy, cz)"
    using fingertip_center_eq[OF len] by blast
  from ot opn have nz: "\<not> zoom_rule_fires s v" and ne: "\<not> zoom_ends s"
    and el: "ORBIT_AFTER_ZOOM_COOLDOWN \<le> c - zoom_end_time s" and q: "orbit_qualifying s h"
    by (simp_all add: orbit_tick_def)
  from q obtain d where d: "displacement s h = Some d"
    by (cases "displacement s h") (simp_all add: orbit_qualifying_def)
  have w: "\<not> c - (if zoom_ends s then c else zoom_end_time s) < ORBIT_AFTER_ZOOM_COOLDOWN"
    using ne el by simp
  let ?r = "tick_result (gate_state (smoothed s cx cy cz) c) ORBIT (Some d)
              (ema_value (smooth_x s) cx) (ema_value (smooth_y s) cy) u v"
  have "snd (snd ?r) = Some d" by simp
  then have "?r = (fst ?r, fst (snd ?r), Some d)" by (metis prod.collapse)
  with update_open[OF inv opn ctr nz w, of u] q d
  have u': "update s (Some h) c u = Inr (fst ?r, fst (snd ?r), Some d)" by (simp only: if_True)
  have i: "unset_together (fst ?r)" by (rule update_keeps_unset_together[OF inv u'])
  show ?thesis
    using u' i d by (intro exI[of _ "fst ?r"] exI[of _ "fst (snd ?r)"] exI[of _ d]) auto
qed

lemma orbit_run:
  assumes "unset_together s" and "all_orbit_ticks s ticks" and "ticks \<noteq> []"
    and "0 \<le> k" and "candidate s = ORBIT \<longrightarrow> k \<le> gesture_streak s"
    and "candidate s \<noteq> ORBIT \<longrightarrow> k = 0"
  shows "\<exists>s' outs d. run s ticks = Inr (s', outs) \<and> length outs = length ticks
           \<and> snd (last outs) = Some d \<and> map snd outs = displacements s ticks
           \<and> (GESTURE_CONFIDENCE_FRAMES \<le> k + int (length ticks) \<longrightarrow>
                 fst (last outs) = ORBIT \<and> current_gesture s' = ORBIT)"
  using assms
proof (induction ticks arbitrary: s k)
  case Nil
  then show ?case by simp
next
  case (Cons t ticks)
  obtain hand c u where t: "t = (hand, c, u)" by (cases t)
  from Cons.prems(2) t obtain h where h: "hand = Some h" and ot: "orbit_tick s h c"
    by (cases hand) simp_all
  from orbit_tick_step[OF Cons.prems(1) ot, of u] obtain s1 g d where
    u1: "update s (Some h) c u = Inr (s1, g, Some d)" and d0: "displacement s h = Some d"
    and i1: "unset_together s1"
    and k1: "candidate s1 = ORBIT"
    and st1: "gesture_streak s1 = (if candidate s = ORBIT then gesture_streak s + 1 else 1)"
    and g: "g = current_gesture s1"
    and cur1: "current_gesture s1 =
               (if GESTURE_CONFIDENCE_FRAMES \<le> gesture_streak s1 then ORBIT else current_gesture s)"
    by blast
  have st1': "k + 1 \<le> gesture_streak s1"
    using st1 Cons.prems(4,5,6) by (cases "candidate s = ORBIT") simp_all
  show ?case
  proof (cases "ticks = []")
    case True
    have r: "run s (t # ticks) = Inr (s1, [(g, Some d)])" by (simp add: True t h u1)
    have "GESTURE_CONFIDENCE_FRAMES \<le> k + 1 \<longrightarrow> g = ORBIT \<and> current_gesture s1 = ORBIT"
      using st1' cur1 g by auto
    moreover have "displacements s (t # ticks) = [Some d]" by (simp add: True t h u1 d0)
    ultimately show ?thesis using r True by simp
  next
    case False
    from Cons.prems(2) t h u1 have a: "all_orbit_ticks s1 ticks" by simp
    have "0 \<le> k + 1" using Cons.prems(4) by simp
    from Cons.IH[OF i1 a False this] k1 st1' obtain s' outs d' where
      r: "run s1 ticks = Inr (s', outs)" and l: "length outs = length ticks"
      and p: "snd (last outs) = Some d'" and m: "map snd outs = displacements s1 ticks"
      and c: "GESTURE_CONFIDENCE_FRAMES \<le> k + 1 + int (length ticks) \<longrightarrow>
                 fst (last outs) = ORBIT \<and> current_gesture s' = ORBIT" by auto
    from l False have ne: "outs \<noteq> []" by auto
    have "run s (t # ticks) = Inr (s', (g, Some d) # outs)" by (simp add: t h u1 r)
    moreover have "displacements s (t # ticks) = Some d # displacements s1 ticks"
      by (simp add: t h u1 d0)
    ultimately show ?thesis using l p c ne m
      by (intro exI[of _ s'] exI[of _ "(g, Some d) # outs"] exI[of _ d']) auto
  qed
qed

lemma recording_tick:
  assumes inv: "unset_together s"
    and len: "21 \<le> length (landmarks h)" and opn: "hand_openness h = Inr v"
    and ze: "zoom_ends s" and nz: "\<not> zoom_rule_fires s v"
  shows "\<exists>s' g. update s (Some h) c u = Inr (s', g, None) \<and> zoom_end_time s' = c
           \<and> candidate s' = IDLE \<and> g \<noteq> ORBIT"
proof -
  obtain cx cy cz where ctr: "fingertip_center h = Inr (cx, cy, cz)"
    using fingertip_center_eq[OF len] by blast
  have w: "c - (if zoom_ends s then c else zoom_end_time s) < ORBIT_AFTER_ZOOM_COOLDOWN"
    using ze cooldown_positive by simp
  let ?r = "tick_result (gate_state (smoothed s cx cy cz) c) IDLE None
              (ema_value (smooth_x s) cx) (ema_value (smooth_y s) cy) u v"
  have "snd (snd ?r) = None" by simp
  then have "?r = (fst ?r, fst (snd ?r), None)" by (metis prod.collapse)
  with update_gate[OF inv opn ctr nz w, of u]
  have u': "update s (Some h) c u = Inr (fst ?r, fst (snd ?r), None)" by (simp only:)
  from ze have "current_gesture s \<noteq> ORBIT" by (auto simp: zoom_ends_def)
  then show ?thesis
    using u' ze by (intro exI[of _ "fst ?r"] exI[of _ "fst (snd ?r)"]) auto
qed

section \<open>Sample scenarios\<close>

text \<open>A hand opening from openness 0.2 to 0.9 over four ticks in 0.1 s, then held open.\<close>

definition rise_ticks :: "tick list" where
  "rise_ticks =
     [(Some (sample_hand 0 0.8), 1, 1), (Some (sample_hand 0 1), 1.03, 1.03),
      (Some (sample_hand 0 1.3), 1.06, 1.06), (Some (sample_hand 0 1.5), 1.1, 1.1)]"

definition hold_ticks :: "tick list" where
  "hold_ticks =
     [(Some (sample_hand 0 1.5), 1.13, 1.13), (Some (sample_hand 0 1.5), 1.16, 1.16),
      (Some (sample_hand 0 1.5), 1.19, 1.19)]"

text \<open>The same opening hand on a clock that starts at 0.\<close>

definition early_ticks :: "tick list" where
  "early_ticks =
     [(Some (sample_hand 0 0.8), 0, 0), (Some (sample_hand 0 1), 0.03, 0.03),
      (Some (sample_hand 0 1.3), 0.06, 0.06), (Some (sample_hand 0 1.5), 0.1, 0.1),
      (Some (sample_hand 0 1.5), 0.13, 0.13)]"

text \<open>
  After the zoom-in is confirmed the hand relaxes to openness 0.65: the tick at 2.0 is
  still classified with the old speed, the tick at 2.03 records the zoom end.
\<close>

definition zoom_confirmed :: GestureRecogniser where
  "zoom_confirmed = state_after (rise_ticks @ hold_ticks @ [(Some (sample_hand 0 1.25), 2, 2)])"

definition zoom_ended :: GestureRecogniser where
  "zoom_ended =
     state_after (rise_ticks @ hold_ticks
                  @ [(Some (sample_hand 0 1.25), 2, 2), (Some (sample_hand 0 1.25), 2.03, 2.03)])"

definition cooldown_ticks :: "tick list" where
  "cooldown_ticks =
     [(Some (sample_hand 0.1 1.25), 2.06, 2.06), (Some (sample_hand 0.2 1.25), 2.09, 2.09),
      (Some (sample_hand 0.3 1.25), 2.12, 2.12)]"

definition cooled :: GestureRecogniser where
  "cooled =
     state_after (rise_ticks @ hold_ticks
                  @ [(Some (sample_hand 0 1.25), 2, 2), (Some (sample_hand 0 1.25), 2.03, 2.03)]
                  @ cooldown_ticks)"

definition release_ticks :: "tick list" where
  "release_ticks =
     [(Some (sample_hand 0.4 1.25), 2.4, 2.4), (Some (sample_hand 0.5 1.25), 2.43, 2.43),
      (Some (sample_hand 0.6 1.25), 2.46, 2.46)]"

lemmas scenario_defs =
  state_after_def rise_ticks_def hold_ticks_def early_ticks_def zoom_confirmed_def zoom_ended_def
  cooldown_ticks_def cooled_def release_ticks_def

lemma zoom_confirmed_eq:
  "zoom_confirmed =
     \<lparr> smooth_x = Some 0, smooth_y = Some (8742945599 / 6400000000), smooth_z = Some 0,
       prev_x = Some 0, prev_y = Some (8742945599 / 6400000000),
       openness_history =
         [(1, 1 / 5), (103 / 100, 2 / 5), (53 / 50, 7 / 10), (11 / 10, 9 / 10),
          (113 / 100, 9 / 10), (29 / 25, 9 / 10), (119 / 100, 9 / 10), (2, 13 / 20)],
       last_openness = Some (13 / 20), last_openness_time = 2,
       gesture_streak = 4, current_gesture = ZOOM_IN, candidate = ZOOM_IN,
       last_zoom_time = 0, zoom_end_time = 0 \<rparr>"
  by (simp add: scenario_defs tick_eval init_def)

lemma zoom_ended_eq:
  "zoom_ended =
     \<lparr> smooth_x = Some 0, smooth_y = Some (168172401589 / 128000000000), smooth_z = Some 0,
       prev_x = Some 0, prev_y = Some (168172401589 / 128000000000),
       openness_history =
         [(1, 1 / 5), (103 / 100, 2 / 5), (53 / 50, 7 / 10), (11 / 10, 9 / 10),
          (113 / 100, 9 / 10), (29 / 25, 9 / 10), (119 / 100, 9 / 10), (2, 13 / 20),
          (203 / 100, 13 / 20)],
       last_openness = Some (13 / 20), last_openness_time = 203 / 100,
       gesture_streak = 1, current_gesture = ZOOM_IN, candidate = IDLE,
       last_zoom_time = 0, zoom_end_time = 203 / 100 \<rparr>"
  by (simp add: scenario_defs tick_eval init_def)

lemma cooled_eq:
  "cooled =
     \<lparr> smooth_x = Some (15849 / 80000),
       smooth_y = Some (1290877466514959 / 1024000000000000), smooth_z = Some 0,
       prev_x = Some (15849 / 80000), prev_y = Some (1290877466514959 / 1024000000000000),
       openness_history =
         [(53 / 50, 7 / 10), (11 / 10, 9 / 10), (113 / 100, 9 / 10), (29 / 25, 9 / 10),
          (119 / 100, 9 / 10), (2, 13 / 20), (203 / 100, 13 / 20), (103 / 50, 13 / 20),
          (209 / 100, 13 / 20), (53 / 25, 13 / 20)],
       last_openness = Some (13 / 20), last_openness_time = 53 / 25,
       gesture_streak = 4, current_gesture = IDLE, candidate = IDLE,
       last_zoom_time = 0, zoom_end_time = 209 / 100 \<rparr>"
  by (simp add: scenario_defs tick_eval init_def)

lemma scenario_reachable: "reachable zoom_confirmed" "reachable zoom_ended" "reachable cooled"
  by (simp_all only: zoom_confirmed_def zoom_ended_def cooled_def state_after_reachable)

text \<open>The candidate the filter holds after a run, \<^verbatim>\<open>None\<close> if a tick raised.\<close>

definition candidate_after :: "GestureRecogniser \<Rightarrow> tick list \<Rightarrow> Gesture option" where
  "candidate_after s ticks =
     (case run s ticks of Inl e \<Rightarrow> None | Inr (s', outs) \<Rightarrow> Some (candidate s'))"

lemmas state_eval =
  zoom_rule_fires_def zoom_ends_def speed_eq orbit_qualifying_def displacement_def
  ema_value_def orbit_tick_def sample_hand_length sample_hand_complete clock_def well_formed_def

lemma release_displacements:
  "displacements cooled release_ticks =
     [Some (145359 / 1600000, - (97897198634631 / 20480000000000000)),
      Some (3038949 / 32000000, - (1076869184980941 / 409600000000000000)),
      Some (62228439 / 640000000, - (11845561034790351 / 8192000000000000000))]"
  by (simp add: release_ticks_def cooled_eq state_eval tick_eval)

section \<open>The claims\<close>

text \<open>
  Claim C1 (payload present exactly when the returned gesture is Orbit). The class
  docstring promises a payload for ORBIT and none for IDLE and ZOOM, but \<^verbatim>\<open>_classify\<close>
  pairs the payload of the Orbit \<^emph>\<open>candidate\<close> with the \<^emph>\<open>confirmed\<close> gesture that
  \<^verbatim>\<open>_set_gesture\<close> returns. On a fresh recogniser fed an open hand drifting right and then
  closing, ticks 2 and 3 return Idle with a payload and tick 5 returns Orbit with none.
\<close>

theorem payload_without_orbit:
  "outputs (run init (orbit_ticks @ [(Some (sample_hand 0.3 0.8), 1.4, 1.4)])) =
     Some [(IDLE, None), (IDLE, Some (9 / 200, 0)), (IDLE, Some (279 / 4000, 0)),
           (ORBIT, Some (6669 / 80000, 0)), (ORBIT, None)]"
  by (simp add: outputs_def run_snoc orbit_ticks_run) (simp add: orbiting_def tick_eval)

text \<open>
  Claim C2 (update never raises, whatever the landmark values and even on a snapshot with
  fewer than 21 landmarks), as stated, fails twice: a snapshot of 20 landmarks makes
  \<^verbatim>\<open>hand.landmarks[20]\<close> raise \<^verbatim>\<open>IndexError\<close>, and a snapshot of 21 landmarks whose
  fingertips lie \<open>2^700\<close> above the wrist makes \<^verbatim>\<open>** 2\<close> in \<^verbatim>\<open>_dist3\<close> raise
  \<^verbatim>\<open>OverflowError\<close>.
\<close>

theorem incomplete_snapshot_raises:
  "update init (Some incomplete_hand) 1 1 = Inl IndexError
   \<and> length (landmarks huge_hand) = 21
   \<and> update init (Some huge_hand) 1 1 = Inl OverflowError"
  by (simp add: update_raises incomplete_hand_raises huge_hand_raises huge_hand_length)

text \<open>
  Claim C2, amended. Call a snapshot \<^emph>\<open>complete\<close> when it has at least 21 landmarks and no
  squared coordinate difference between a fingertip or knuckle and the wrist overflows a
  double. From every reachable state:
  \<^item> every sequence of ticks that are \<^verbatim>\<open>None\<close> or a complete snapshot (degenerate geometry
    and identical clock readings included) returns normally, one (gesture, payload) pair
    per tick, and ends in a reachable state;
  \<^item> \<^verbatim>\<open>update\<close> returns on a snapshot exactly when the snapshot is complete;
  \<^item> a snapshot of at least 21 landmarks with an overflowing square raises
    \<^verbatim>\<open>OverflowError\<close>;
  \<^item> every snapshot of fewer than 21 landmarks raises \<^verbatim>\<open>IndexError\<close> or
    \<^verbatim>\<open>OverflowError\<close>, and \<^verbatim>\<open>IndexError\<close> when no landmark it has overflows against the
    wrist.
\<close>

theorem update_returns_on_complete_snapshots:
  assumes "reachable s"
  shows "((\<forall>t \<in> set ticks. well_formed (fst t)) \<longrightarrow>
            (\<exists>s' outs. run s ticks = Inr (s', outs) \<and> length outs = length ticks \<and> reachable s'))
       \<and> ((\<exists>r. update s (Some h) now_c now_u = Inr r) \<longleftrightarrow> complete h)
       \<and> (21 \<le> length (landmarks h) \<longrightarrow> overflows (landmarks h) \<longrightarrow>
            update s (Some h) now_c now_u = Inl OverflowError)
       \<and> (length (landmarks h) < 21 \<longrightarrow>
            update s (Some h) now_c now_u = Inl IndexError
            \<or> update s (Some h) now_c now_u = Inl OverflowError)
       \<and> (length (landmarks h) < 21 \<longrightarrow>
            (\<forall>a \<in> set (landmarks h). \<not> dist_overflows a (landmarks h ! 0)) \<longrightarrow>
            update s (Some h) now_c now_u = Inl IndexError)"
proof (intro conjI impI)
  assume wf: "\<forall>t \<in> set ticks. well_formed (fst t)"
  from run_total[OF reachable_unset_together[OF assms] wf] obtain s' outs where
    r: "run s ticks = Inr (s', outs)" and l: "length outs = length ticks" by blast
  from run_reachable[OF assms r] r l
  show "\<exists>s' outs. run s ticks = Inr (s', outs) \<and> length outs = length ticks \<and> reachable s'"
    by blast
next
  show "(\<exists>r. update s (Some h) now_c now_u = Inr r) \<longleftrightarrow> complete h"
    by (rule update_returns_iff[OF reachable_unset_together[OF assms]])
next
  assume "21 \<le> length (landmarks h)" "overflows (landmarks h)"
  then show "update s (Some h) now_c now_u = Inl OverflowError"
    by (intro update_raises hand_openness_overflow)
next
  assume "length (landmarks h) < 21"
  then show "update s (Some h) now_c now_u = Inl IndexError
      \<or> update s (Some h) now_c now_u = Inl OverflowError"
    by (rule update_short)
next
  assume "length (landmarks h) < 21"
    "\<forall>a \<in> set (landmarks h). \<not> dist_overflows a (landmarks h ! 0)"
  then show "update s (Some h) now_c now_u = Inl IndexError"
    by (intro update_raises hand_openness_short)
qed

text \<open>
  Claim C2, witness: all landmarks identical, identical clock readings and a lost hand in
  between return; the hand spread in three dimensions returns; 20 landmarks raise
  \<^verbatim>\<open>IndexError\<close>; fingertips \<open>2^700\<close> above the wrist raise \<^verbatim>\<open>OverflowError\<close>.
\<close>

theorem update_returns_on_complete_snapshots_witness:
  "(\<exists>s' outs. run init [(Some degenerate_hand, 1, 1), (None, 1, 1), (Some degenerate_hand, 1, 1),
                         (Some (sample_hand 0 2), 1, 1)] = Inr (s', outs)
      \<and> length outs = length [(Some degenerate_hand, 1::real, 1::real), (None, 1, 1),
                               (Some degenerate_hand, 1, 1), (Some (sample_hand 0 2), 1, 1)]
      \<and> reachable s')
   \<and> (\<exists>r. update init (Some spread_hand) 1 1 = Inr r)
   \<and> complete spread_hand
   \<and> length (landmarks incomplete_hand) < 21
   \<and> update init (Some incomplete_hand) 1 1 = Inl IndexError
   \<and> overflows (landmarks huge_hand)
   \<and> update init (Some huge_hand) 1 1 = Inl OverflowError"
proof -
  have o: "21 \<le> length (landmarks huge_hand)" "overflows (landmarks huge_hand)"
    by (simp_all add: huge_hand_length huge_hand_overflows)
  have wf: "\<forall>t \<in> set [(Some degenerate_hand, 1::real, 1::real), (None, 1, 1),
                    (Some degenerate_hand, 1, 1), (Some (sample_hand 0 2), 1, 1)]. well_formed (fst t)"
    by (simp add: well_formed_def degenerate_hand_complete sample_hand_complete)
  have c: "complete spread_hand"
    by (simp add: complete_def spread_hand_length spread_hand_fits)
  have i: "length (landmarks incomplete_hand) < 21"
    "\<forall>a \<in> set (landmarks incomplete_hand). \<not> dist_overflows a (landmarks incomplete_hand ! 0)"
    by (simp_all add: incomplete_hand_def dist_overflows_same)
  from update_returns_on_complete_snapshots[OF reachable_init,
      of "[(Some degenerate_hand, 1, 1), (None, 1, 1), (Some degenerate_hand, 1, 1),
           (Some (sample_hand 0 2), 1, 1)]" spread_hand 1 1] wf c
    update_returns_on_complete_snapshots[OF reachable_init, of "[]" incomplete_hand 1 1] i
    update_returns_on_complete_snapshots[OF reachable_init, of "[]" huge_hand 1 1] o
  show ?thesis by blast
qed

text \<open>
  Claim C3 (hysteresis). From the initial state, Orbit fed \<open>N - 1\<close> times and then Idle
  returns Idle on every tick; Orbit fed \<open>N\<close> times confirms Orbit (\<open>N\<close> is
  \<^const>\<open>GESTURE_CONFIDENCE_FRAMES\<close>); from every state the gesture returned by
  \<^const>\<open>set_gesture\<close>, which is the confirmed gesture it leaves, is the previous
  confirmed gesture or the candidate fed; and whenever a feed changes the confirmed
  gesture, the last \<open>N\<close> candidates fed were all that new gesture.
\<close>

theorem hysteresis:
  "feed_out init (replicate (nat GESTURE_CONFIDENCE_FRAMES - 1) ORBIT @ [IDLE])
     = replicate (nat GESTURE_CONFIDENCE_FRAMES) IDLE
   \<and> last (feed_out init (replicate (nat GESTURE_CONFIDENCE_FRAMES) ORBIT)) = ORBIT
   \<and> current_gesture (feed init (replicate (nat GESTURE_CONFIDENCE_FRAMES) ORBIT)) = ORBIT
   \<and> (snd (set_gesture s g) = current_gesture s \<or> snd (set_gesture s g) = g)
   \<and> snd (set_gesture s g) = current_gesture (fst (set_gesture s g))
   \<and> (current_gesture (feed init (gs @ [c])) \<noteq> current_gesture (feed init gs) \<longrightarrow>
        nat GESTURE_CONFIDENCE_FRAMES \<le> length (gs @ [c])
        \<and> take (nat GESTURE_CONFIDENCE_FRAMES) (rev (gs @ [c])) = replicate (nat GESTURE_CONFIDENCE_FRAMES) c
        \<and> current_gesture (feed init (gs @ [c])) = c)"
proof -
  have n: "nat GESTURE_CONFIDENCE_FRAMES = Suc (Suc (Suc 0))"
    by (simp add: GESTURE_CONFIDENCE_FRAMES_def)
  have a: "feed_out init (replicate (nat GESTURE_CONFIDENCE_FRAMES - 1) ORBIT @ [IDLE])
     = replicate (nat GESTURE_CONFIDENCE_FRAMES) IDLE"
    unfolding n by (simp add: set_gesture_fields filter_fields_def init_def GESTURE_CONFIDENCE_FRAMES_def)
  have b: "last (feed_out init (replicate (nat GESTURE_CONFIDENCE_FRAMES) ORBIT)) = ORBIT"
    unfolding n by (simp add: set_gesture_fields filter_fields_def init_def GESTURE_CONFIDENCE_FRAMES_def)
  have b': "current_gesture (feed init (replicate (nat GESTURE_CONFIDENCE_FRAMES) ORBIT)) = ORBIT"
    unfolding n by (simp add: set_gesture_fields filter_fields_def init_def GESTURE_CONFIDENCE_FRAMES_def)
  have c: "snd (set_gesture s g) = current_gesture s \<or> snd (set_gesture s g) = g"
    using set_gesture_current[of s g] by (simp add: set_gesture_snd)
  have d: "snd (set_gesture s g) = current_gesture (fst (set_gesture s g))"
    by (rule set_gesture_snd)
  from a b b' c d feed_changed[of gs c] show ?thesis by blast
qed

text \<open>Claim C3, witness: Idle, then Orbit three times; the third Orbit changes the confirmed gesture.\<close>

theorem hysteresis_witness:
  "current_gesture (feed init ([IDLE, ORBIT, ORBIT] @ [ORBIT])) \<noteq> current_gesture (feed init [IDLE, ORBIT, ORBIT])
   \<and> take 3 (rev ([IDLE, ORBIT, ORBIT] @ [ORBIT])) = replicate 3 ORBIT
   \<and> current_gesture (feed init ([IDLE, ORBIT, ORBIT] @ [ORBIT])) = ORBIT
   \<and> feed_out init [ORBIT, ORBIT, IDLE] = [IDLE, IDLE, IDLE]
   \<and> last (feed_out init [ORBIT, ORBIT, ORBIT]) = ORBIT"
proof -
  have n: "nat GESTURE_CONFIDENCE_FRAMES = 3" by (simp add: GESTURE_CONFIDENCE_FRAMES_def)
  have r2: "replicate (3 - 1) ORBIT @ [IDLE] = [ORBIT, ORBIT, IDLE]"
    and r3: "replicate 3 ORBIT = [ORBIT, ORBIT, ORBIT]" and i3: "replicate 3 IDLE = [IDLE, IDLE, IDLE]"
    by (simp_all add: numeral_3_eq_3)
  have ch: "current_gesture (feed init ([IDLE, ORBIT, ORBIT] @ [ORBIT]))
            \<noteq> current_gesture (feed init [IDLE, ORBIT, ORBIT])"
    by (simp add: set_gesture_fields filter_fields_def init_def GESTURE_CONFIDENCE_FRAMES_def)
  from hysteresis[of init ORBIT "[IDLE, ORBIT, ORBIT]" ORBIT] ch show ?thesis
    unfolding n r2 r3 i3 by blast
qed

text \<open>
  Claim C6 (speed detector). \<^const>\<open>openness_speed\<close> returns \<^verbatim>\<open>None\<close> exactly when fewer
  than 4 samples are buffered or the newest and oldest samples are less than 0.05 s
  apart; otherwise it returns the openness difference of the newest and oldest samples
  divided by their time difference. It never raises.
\<close>

theorem openness_speed_spec:
  "openness_speed self =
     Inr (if length (openness_history self) < 4
             \<or> fst (last (openness_history self)) - fst (hd (openness_history self)) < 0.05
          then None
          else Some ((snd (last (openness_history self)) - snd (hd (openness_history self)))
                     / (fst (last (openness_history self)) - fst (hd (openness_history self)))))"
  by (rule openness_speed_eq)

text \<open>Claim C6, witness: four samples over 0.1 s, four samples over 0.04 s, three samples.\<close>

theorem openness_speed_spec_witness:
  "openness_speed (init\<lparr>openness_history := [(1, 0.2), (1.03, 0.4), (1.06, 0.7), (1.1, 0.9)]\<rparr>)
     = Inr (Some 7)
   \<and> openness_speed (init\<lparr>openness_history := [(1, 0.2), (1.01, 0.4), (1.02, 0.7), (1.04, 0.9)]\<rparr>)
     = Inr None
   \<and> openness_speed (init\<lparr>openness_history := [(1, 0.2), (1.03, 0.4), (1.1, 0.9)]\<rparr>)
     = Inr None"
  using openness_speed_spec [of "init\<lparr>openness_history := [(1, 0.2), (1.03, 0.4), (1.06, 0.7), (1.1, 0.9)]\<rparr>"]
        openness_speed_spec [of "init\<lparr>openness_history := [(1, 0.2), (1.01, 0.4), (1.02, 0.7), (1.04, 0.9)]\<rparr>"]
        openness_speed_spec [of "init\<lparr>openness_history := [(1, 0.2), (1.03, 0.4), (1.1, 0.9)]\<rparr>"]
  by simp




text \<open>
  Claim C8 (absence). \<^verbatim>\<open>update(None)\<close> never raises; it clears the smoothed position, the
  previous position and the openness history and nothing else, then feeds Idle to the
  filter and returns the filter's confirmed gesture with no payload. From every
  reachable state, \<open>N\<close> or more consecutive absences leave the confirmed gesture Idle.
\<close>

theorem absence_handling:
  "update s None now_c now_u =
     Inr (fst (set_gesture (reset_smooth s) IDLE), snd (set_gesture (reset_smooth s) IDLE), None)
   \<and> reset_smooth s = s\<lparr>smooth_x := None, smooth_y := None, smooth_z := None,
                          prev_x := None, prev_y := None, openness_history := []\<rparr>
   \<and> snd (set_gesture (reset_smooth s) IDLE) = current_gesture (fst (set_gesture (reset_smooth s) IDLE))
   \<and> smooth_x (fst (set_gesture (reset_smooth s) IDLE)) = None
   \<and> smooth_y (fst (set_gesture (reset_smooth s) IDLE)) = None
   \<and> smooth_z (fst (set_gesture (reset_smooth s) IDLE)) = None
   \<and> prev_x (fst (set_gesture (reset_smooth s) IDLE)) = None
   \<and> prev_y (fst (set_gesture (reset_smooth s) IDLE)) = None
   \<and> openness_history (fst (set_gesture (reset_smooth s) IDLE)) = []
   \<and> (reachable s \<longrightarrow> (\<forall>t \<in> set ticks. fst t = None) \<longrightarrow>
        nat GESTURE_CONFIDENCE_FRAMES \<le> length ticks \<longrightarrow>
        (\<exists>s' outs. run s ticks = Inr (s', outs) \<and> length outs = length ticks
            \<and> current_gesture s' = IDLE \<and> last outs = (IDLE, None)))"
proof -
  have a: "update s None now_c now_u =
     Inr (fst (set_gesture (reset_smooth s) IDLE), snd (set_gesture (reset_smooth s) IDLE), None)"
    by (simp add: update_def emit_def split: prod.split)
  have b: "reset_smooth s = s\<lparr>smooth_x := None, smooth_y := None, smooth_z := None,
                          prev_x := None, prev_y := None, openness_history := []\<rparr>"
    by (rule reset_smooth_def)
  have c: "snd (set_gesture (reset_smooth s) IDLE) = current_gesture (fst (set_gesture (reset_smooth s) IDLE))"
    by (rule set_gesture_snd)
  have d: "smooth_x (fst (set_gesture (reset_smooth s) IDLE)) = None"
    "smooth_y (fst (set_gesture (reset_smooth s) IDLE)) = None"
    "smooth_z (fst (set_gesture (reset_smooth s) IDLE)) = None"
    "prev_x (fst (set_gesture (reset_smooth s) IDLE)) = None"
    "prev_y (fst (set_gesture (reset_smooth s) IDLE)) = None"
    "openness_history (fst (set_gesture (reset_smooth s) IDLE)) = []"
    by (simp_all add: set_gesture_fields)
  have e: "reachable s \<longrightarrow> (\<forall>t \<in> set ticks. fst t = None) \<longrightarrow>
        nat GESTURE_CONFIDENCE_FRAMES \<le> length ticks \<longrightarrow>
        (\<exists>s' outs. run s ticks = Inr (s', outs) \<and> length outs = length ticks
            \<and> current_gesture s' = IDLE \<and> last outs = (IDLE, None))"
    using absent_run[OF reachable_streak, of s ticks] by blast
  from a b c d e show ?thesis by blast
qed

text \<open>Claim C8, witness: three absences after Orbit was confirmed.\<close>

theorem absence_handling_witness:
  "\<exists>s' outs. run orbiting [(None, 1.4, 1.4), (None, 1.5, 1.5), (None, 1.6, 1.6)] = Inr (s', outs)
      \<and> current_gesture orbiting = ORBIT
      \<and> current_gesture s' = IDLE \<and> last outs = (IDLE, None)"
proof -
  have n: "\<forall>t \<in> set [(None :: HandData option, 1.4::real, 1.4::real), (None, 1.5, 1.5), (None, 1.6, 1.6)]. fst t = None"
    by simp
  have l: "nat GESTURE_CONFIDENCE_FRAMES \<le> length [(None :: HandData option, 1.4::real, 1.4::real), (None, 1.5, 1.5), (None, 1.6, 1.6)]"
    by (simp add: GESTURE_CONFIDENCE_FRAMES_def)
  from absence_handling[of orbiting 0 0 "[(None, 1.4, 1.4), (None, 1.5, 1.5), (None, 1.6, 1.6)]"]
       orbiting_reachable n l
  have "\<exists>s' outs. run orbiting [(None, 1.4, 1.4), (None, 1.5, 1.5), (None, 1.6, 1.6)] = Inr (s', outs)
      \<and> length outs = length [(None :: HandData option, 1.4::real, 1.4::real), (None, 1.5, 1.5), (None, 1.6, 1.6)]
      \<and> current_gesture s' = IDLE \<and> last outs = (IDLE, None)"
    by blast
  moreover have "current_gesture orbiting = ORBIT" by (simp add: orbiting_def)
  ultimately show ?thesis by blast
qed

text \<open>
  Claim C10 (fields unset together). In every reachable state \<^verbatim>\<open>_prev_x\<close> and
  \<^verbatim>\<open>_prev_y\<close> are unset together, and so are \<^verbatim>\<open>_smooth_x\<close>, \<^verbatim>\<open>_smooth_y\<close> and
  \<^verbatim>\<open>_smooth_z\<close>; hence neither \<^const>\<open>ema\<close>, nor \<^const>\<open>classify\<close>, nor \<^const>\<open>update\<close>
  ever reaches the \<^verbatim>\<open>TypeError\<close> of arithmetic on an unset value.
\<close>

theorem unset_together_reachable:
  assumes "reachable s"
  shows "(prev_x s = None \<longleftrightarrow> prev_y s = None)
         \<and> (smooth_x s = None \<longleftrightarrow> smooth_y s = None)
         \<and> (smooth_y s = None \<longleftrightarrow> smooth_z s = None)
         \<and> update s hand now_c now_u \<noteq> Inl TypeError
         \<and> (\<forall>x y z. ema s x y z \<noteq> Inl TypeError)
         \<and> (\<forall>h openness sx sy now. classify s h openness sx sy now \<noteq> Inl TypeError)"
proof -
  from reachable_unset_together[OF assms] have inv: "unset_together s" .
  have u: "update s hand now_c now_u \<noteq> Inl TypeError"
    using update_error[OF inv] by fastforce
  have e: "\<forall>x y z. ema s x y z \<noteq> Inl TypeError"
  proof (intro allI)
    fix x y z
    from ema_total[OF inv, of x y z] show "ema s x y z \<noteq> Inl TypeError" by auto
  qed
  have p: "prev_x s = None \<longleftrightarrow> prev_y s = None" using inv by (simp add: unset_together_def)
  have c: "\<forall>h openness sx sy now. classify s h openness sx sy now \<noteq> Inl TypeError"
  proof (intro allI)
    fix h openness sx sy now
    from classify_emit[OF p, of h openness sx sy now]
    show "classify s h openness sx sy now \<noteq> Inl TypeError" by auto
  qed
  from inv u e c show ?thesis by (simp add: unset_together_def)
qed

text \<open>Claim C10, witness: the state after four presence ticks, and the state after losing the hand.\<close>

theorem unset_together_reachable_witness:
  "prev_x orbiting \<noteq> None \<and> prev_y orbiting \<noteq> None
   \<and> smooth_x orbiting \<noteq> None \<and> smooth_y orbiting \<noteq> None \<and> smooth_z orbiting \<noteq> None
   \<and> update orbiting (Some (sample_hand 0.4 2)) 1.4 1.4 \<noteq> Inl TypeError
   \<and> prev_x (fst (emit (reset_smooth orbiting) IDLE None)) = None
   \<and> prev_y (fst (emit (reset_smooth orbiting) IDLE None)) = None
   \<and> update (fst (emit (reset_smooth orbiting) IDLE None)) (Some (sample_hand 0.4 2)) 1.5 1.5 \<noteq> Inl TypeError"
proof -
  have r: "reachable (fst (emit (reset_smooth orbiting) IDLE None))"
    by (rule reachable_update[OF orbiting_reachable update_absent[of orbiting "1.4" "1.4"]])
  from unset_together_reachable[OF orbiting_reachable, of "Some (sample_hand 0.4 2)" "1.4" "1.4"]
       unset_together_reachable[OF r, of "Some (sample_hand 0.4 2)" "1.5" "1.5"]
  show ?thesis by (simp add: orbiting_def)
qed

text \<open>
  Claim C4 (cooldown suppression), as stated, fails in one part: within 0.3 s of the
  zoom-end timestamp the candidate is not always forced to Idle, because the zoom rules
  run before the cooldown gate. The zoom end is recorded at clock 2.03 while Zoom-in is
  still the confirmed gesture; at 2.06 an Orbit-qualifying snapshot (openness 0.8,
  displacement above the dead zone) gets candidate Zoom-in from the zoom-sustain rule.
\<close>

theorem cooldown_candidate_not_idle:
  "zoom_end_time zoom_confirmed = 0
   \<and> current_gesture zoom_ended = ZOOM_IN
   \<and> zoom_end_time zoom_ended = 2.03
   \<and> orbit_qualifying zoom_ended (sample_hand 0.2 1.4)
   \<and> 2.06 - zoom_end_time zoom_ended < ORBIT_AFTER_ZOOM_COOLDOWN
   \<and> candidate_after zoom_ended [(Some (sample_hand 0.2 1.4), 2.06, 2.06)] = Some ZOOM_IN"
proof -
  have a: "zoom_end_time zoom_confirmed = 0" by (simp add: zoom_confirmed_eq)
  have b: "current_gesture zoom_ended = ZOOM_IN \<and> zoom_end_time zoom_ended = 2.03"
    by (simp add: zoom_ended_eq)
  have c: "orbit_qualifying zoom_ended (sample_hand 0.2 1.4)"
    by (simp add: zoom_ended_eq state_eval tick_eval)
  have d: "2.06 - zoom_end_time zoom_ended < ORBIT_AFTER_ZOOM_COOLDOWN"
    by (simp add: zoom_ended_eq ORBIT_AFTER_ZOOM_COOLDOWN_def)
  have e: "candidate_after zoom_ended [(Some (sample_hand 0.2 1.4), 2.06, 2.06)] = Some ZOOM_IN"
    by (simp add: candidate_after_def zoom_ended_eq tick_eval)
  from a b c d e show ?thesis by blast
qed

text \<open>
  Claim C4, amended. From every reachable state: the tick that records the zoom end
  (a zoom confirmed, the speed known and below the threshold, no zoom rule firing) has
  candidate Idle, no payload and does not return Orbit; on a tick whose clock reading is
  less than 0.3 s after the zoom-end timestamp the candidate is never Orbit, it is Idle
  unless a zoom rule fires first, and there is no payload; over any run of ticks within
  0.3 s after the zoom-end timestamp, from a state whose confirmed gesture is not Orbit,
  no tick returns Orbit or a payload; and once the cooldown has elapsed, \<open>N\<close> or more
  consecutive ticks that pass the zoom rules, do not re-record the zoom end and qualify
  for Orbit end with Orbit returned, and the payload of every one of these ticks is the
  displacement \<open>(sx - prev_x, sy - prev_y)\<close> of that tick (\<^const>\<open>displacements\<close>).
\<close>

theorem cooldown_suppression:
  assumes "reachable s"
  shows "(21 \<le> length (landmarks h) \<longrightarrow> hand_openness h = Inr v \<longrightarrow>
            zoom_ends s \<longrightarrow> \<not> zoom_rule_fires s v \<longrightarrow>
            (\<exists>s' g. update s (Some h) c u = Inr (s', g, None) \<and> zoom_end_time s' = c
                \<and> candidate s' = IDLE \<and> g \<noteq> ORBIT))
     \<and> (21 \<le> length (landmarks h) \<longrightarrow> hand_openness h = Inr v \<longrightarrow>
            c - zoom_end_time s < ORBIT_AFTER_ZOOM_COOLDOWN \<longrightarrow>
            (\<exists>s' g. update s (Some h) c u = Inr (s', g, None) \<and> candidate s' \<noteq> ORBIT
                \<and> (\<not> zoom_rule_fires s v \<longrightarrow> candidate s' = IDLE)
                \<and> (current_gesture s \<noteq> ORBIT \<longrightarrow> g \<noteq> ORBIT)))
     \<and> (current_gesture s \<noteq> ORBIT \<longrightarrow>
            (\<forall>t \<in> set ticks. well_formed (fst t) \<and> zoom_end_time s \<le> clock t
                \<and> clock t - zoom_end_time s < ORBIT_AFTER_ZOOM_COOLDOWN) \<longrightarrow>
            (\<exists>s' outs. run s ticks = Inr (s', outs) \<and> length outs = length ticks
                \<and> current_gesture s' \<noteq> ORBIT \<and> (ticks \<noteq> [] \<longrightarrow> candidate s' \<noteq> ORBIT)
                \<and> (\<forall>out \<in> set outs. fst out \<noteq> ORBIT \<and> snd out = None)))
     \<and> (all_orbit_ticks s oticks \<longrightarrow> nat GESTURE_CONFIDENCE_FRAMES \<le> length oticks \<longrightarrow>
            (\<exists>s' outs d. run s oticks = Inr (s', outs) \<and> length outs = length oticks
                \<and> last outs = (ORBIT, Some d) \<and> current_gesture s' = ORBIT
                \<and> map snd outs = displacements s oticks))"
proof -
  from assms have inv: "unset_together s" by (rule reachable_unset_together)
  from assms have st: "0 \<le> gesture_streak s" by (rule reachable_streak)
  have a: "\<exists>s' g. update s (Some h) c u = Inr (s', g, None) \<and> zoom_end_time s' = c
                \<and> candidate s' = IDLE \<and> g \<noteq> ORBIT"
    if "21 \<le> length (landmarks h)" "hand_openness h = Inr v" "zoom_ends s" "\<not> zoom_rule_fires s v"
    using recording_tick[OF inv that] .
  have b: "\<exists>s' g. update s (Some h) c u = Inr (s', g, None) \<and> candidate s' \<noteq> ORBIT
                \<and> (\<not> zoom_rule_fires s v \<longrightarrow> candidate s' = IDLE)
                \<and> (current_gesture s \<noteq> ORBIT \<longrightarrow> g \<noteq> ORBIT)"
    if len: "21 \<le> length (landmarks h)" and opn: "hand_openness h = Inr v"
      and w: "c - zoom_end_time s < ORBIT_AFTER_ZOOM_COOLDOWN"
  proof -
    from window_tick[OF inv opn len w, of u] obtain s' g where
      "update s (Some h) c u = Inr (s', g, None)" "candidate s' \<noteq> ORBIT"
      "\<not> zoom_rule_fires s v \<longrightarrow> candidate s' = IDLE" "g = current_gesture s'"
      "current_gesture s' = current_gesture s \<or> current_gesture s' = candidate s'" by blast
    then show ?thesis by (intro exI[of _ s'] exI[of _ g]) auto
  qed
  have c: "\<exists>s' outs. run s ticks = Inr (s', outs) \<and> length outs = length ticks
                \<and> current_gesture s' \<noteq> ORBIT \<and> (ticks \<noteq> [] \<longrightarrow> candidate s' \<noteq> ORBIT)
                \<and> (\<forall>out \<in> set outs. fst out \<noteq> ORBIT \<and> snd out = None)"
    if cur: "current_gesture s \<noteq> ORBIT"
      and t: "\<forall>t \<in> set ticks. well_formed (fst t) \<and> zoom_end_time s \<le> clock t
                \<and> clock t - zoom_end_time s < ORBIT_AFTER_ZOOM_COOLDOWN"
    using window_run[OF inv cur order_refl t] by blast
  have d: "\<exists>s' outs d. run s oticks = Inr (s', outs) \<and> length outs = length oticks
                \<and> last outs = (ORBIT, Some d) \<and> current_gesture s' = ORBIT
                \<and> map snd outs = displacements s oticks"
    if o: "all_orbit_ticks s oticks" and n: "nat GESTURE_CONFIDENCE_FRAMES \<le> length oticks"
  proof -
    from n have ne: "oticks \<noteq> []" by (auto simp: GESTURE_CONFIDENCE_FRAMES_def)
    from n have n': "GESTURE_CONFIDENCE_FRAMES \<le> 0 + int (length oticks)" by simp
    from orbit_run[OF inv o ne, of 0] st n' obtain s' outs d where
      "run s oticks = Inr (s', outs)" "length outs = length oticks" "snd (last outs) = Some d"
      "fst (last outs) = ORBIT" "current_gesture s' = ORBIT"
      "map snd outs = displacements s oticks" by auto
    then show ?thesis
      by (intro exI[of _ s'] exI[of _ outs] exI[of _ d]) (auto simp: prod_eq_iff)
  qed
  from a b c d show ?thesis by blast
qed

text \<open>
  Claim C4, witness: zoom-in confirmed, the hand relaxes; the zoom end is recorded at
  2.03; a drifting hand is suppressed at 2.06, 2.09 and 2.12; the same drift at 2.4, 2.43
  and 2.46 returns Orbit on the third tick, each tick with its displacement as payload.
\<close>

theorem cooldown_suppression_witness:
  "(\<exists>s' g. update zoom_confirmed (Some (sample_hand 0 1.25)) 2.03 2.03 = Inr (s', g, None)
        \<and> zoom_end_time s' = 2.03 \<and> candidate s' = IDLE \<and> g \<noteq> ORBIT)
   \<and> (\<exists>s' g. update zoom_ended (Some (sample_hand 0.1 1.25)) 2.06 2.06 = Inr (s', g, None)
        \<and> candidate s' = IDLE \<and> g \<noteq> ORBIT)
   \<and> (\<exists>s' outs. run zoom_ended cooldown_ticks = Inr (s', outs)
        \<and> length outs = length cooldown_ticks
        \<and> current_gesture s' \<noteq> ORBIT \<and> candidate s' \<noteq> ORBIT
        \<and> (\<forall>out \<in> set outs. fst out \<noteq> ORBIT \<and> snd out = None))
   \<and> (\<exists>s' outs. run cooled release_ticks = Inr (s', outs)
        \<and> length outs = length release_ticks
        \<and> last outs = (ORBIT, Some (62228439 / 640000000, - (11845561034790351 / 8192000000000000000)))
        \<and> current_gesture s' = ORBIT
        \<and> map snd outs =
            [Some (145359 / 1600000, - (97897198634631 / 20480000000000000)),
             Some (3038949 / 32000000, - (1076869184980941 / 409600000000000000)),
             Some (62228439 / 640000000, - (11845561034790351 / 8192000000000000000))])"
proof -
  have len: "21 \<le> length (landmarks (sample_hand 0 1.25))"
    "21 \<le> length (landmarks (sample_hand 0.1 1.25))" by (simp_all add: sample_hand_length)
  have opn: "hand_openness (sample_hand 0 1.25) = Inr 0.65"
    "hand_openness (sample_hand 0.1 1.25) = Inr 0.65"
    by (simp_all add: sample_hand_openness clamp01_def)
  \<comment> \<open>the tick that records the zoom end\<close>
  have a1: "zoom_ends zoom_confirmed" and a2: "\<not> zoom_rule_fires zoom_confirmed 0.65"
    by (simp_all add: zoom_confirmed_eq state_eval ZOOM_SPEED_THRESHOLD_def)
  \<comment> \<open>ticks inside the cooldown\<close>
  have b1: "2.06 - zoom_end_time zoom_ended < ORBIT_AFTER_ZOOM_COOLDOWN"
    and b2: "\<not> zoom_rule_fires zoom_ended 0.65" and b3: "current_gesture zoom_ended \<noteq> ORBIT"
    by (simp_all add: zoom_ended_eq state_eval ZOOM_SPEED_THRESHOLD_def ORBIT_AFTER_ZOOM_COOLDOWN_def)
  have c1: "\<forall>t \<in> set cooldown_ticks. well_formed (fst t) \<and> zoom_end_time zoom_ended \<le> clock t
                \<and> clock t - zoom_end_time zoom_ended < ORBIT_AFTER_ZOOM_COOLDOWN"
    by (simp add: cooldown_ticks_def zoom_ended_eq state_eval ORBIT_AFTER_ZOOM_COOLDOWN_def)
  have c2: "cooldown_ticks \<noteq> []" by (simp add: cooldown_ticks_def)
  \<comment> \<open>ticks after the cooldown\<close>
  have d1: "all_orbit_ticks cooled release_ticks"
    by (simp add: release_ticks_def cooled_eq state_eval tick_eval)
  have d2: "nat GESTURE_CONFIDENCE_FRAMES \<le> length release_ticks"
    by (simp add: release_ticks_def GESTURE_CONFIDENCE_FRAMES_def)
  from cooldown_suppression[OF scenario_reachable(1), of "sample_hand 0 1.25" "0.65" "2.03" "2.03"]
    len opn a1 a2
  have A: "\<exists>s' g. update zoom_confirmed (Some (sample_hand 0 1.25)) 2.03 2.03 = Inr (s', g, None)
        \<and> zoom_end_time s' = 2.03 \<and> candidate s' = IDLE \<and> g \<noteq> ORBIT" by blast
  from cooldown_suppression[OF scenario_reachable(2), of "sample_hand 0.1 1.25" "0.65" "2.06" "2.06"
      cooldown_ticks] len opn b1 b2 b3 c1 c2
  have B: "\<exists>s' g. update zoom_ended (Some (sample_hand 0.1 1.25)) 2.06 2.06 = Inr (s', g, None)
        \<and> candidate s' = IDLE \<and> g \<noteq> ORBIT"
    and C: "\<exists>s' outs. run zoom_ended cooldown_ticks = Inr (s', outs)
        \<and> length outs = length cooldown_ticks
        \<and> current_gesture s' \<noteq> ORBIT \<and> candidate s' \<noteq> ORBIT
        \<and> (\<forall>out \<in> set outs. fst out \<noteq> ORBIT \<and> snd out = None)" by blast+
  from cooldown_suppression[OF scenario_reachable(3), of _ _ _ _ _ release_ticks] d1 d2
  obtain s' outs d where r: "run cooled release_ticks = Inr (s', outs)"
    and l: "length outs = length release_ticks" and o: "last outs = (ORBIT, Some d)"
    and g: "current_gesture s' = ORBIT" and m: "map snd outs = displacements cooled release_ticks"
    by blast
  from l have "outs \<noteq> []" by (auto simp: release_ticks_def)
  then have "snd (last outs) = last (map snd outs)" by (simp add: last_map)
  with o m have "Some d = last (displacements cooled release_ticks)" by simp
  then have "d = (62228439 / 640000000, - (11845561034790351 / 8192000000000000000))"
    by (simp add: release_displacements)
  with r l o g m
  have D: "\<exists>s' outs. run cooled release_ticks = Inr (s', outs)
        \<and> length outs = length release_ticks
        \<and> last outs = (ORBIT, Some (62228439 / 640000000, - (11845561034790351 / 8192000000000000000)))
        \<and> current_gesture s' = ORBIT
        \<and> map snd outs =
            [Some (145359 / 1600000, - (97897198634631 / 20480000000000000)),
             Some (3038949 / 32000000, - (1076869184980941 / 409600000000000000)),
             Some (62228439 / 640000000, - (11845561034790351 / 8192000000000000000))]"
    by (simp add: release_displacements)
  from A B C D show ?thesis by blast
qed

text \<open>
  Claim C5 (zoom scenario), as stated, fails in one part: on the fourth tick of the rise
  the candidate is not Zoom-in. \<^verbatim>\<open>update\<close> pushes the openness sample after
  \<^verbatim>\<open>_classify\<close> has run, so the fourth tick is classified with three samples buffered
  and an unknown speed; here its candidate is Orbit. The speed of 7 per second is first
  seen by the fifth tick.
\<close>

theorem zoom_candidate_late:
  "length (openness_history (state_after (butlast rise_ticks))) = 3
   \<and> speed (state_after (butlast rise_ticks)) = None
   \<and> candidate_after init rise_ticks = Some ORBIT
   \<and> speed (state_after rise_ticks) = Some 7
   \<and> candidate_after init (rise_ticks @ [hd hold_ticks]) = Some ZOOM_IN"
proof -
  have a: "length (openness_history (state_after (butlast rise_ticks))) = 3
   \<and> speed (state_after (butlast rise_ticks)) = None"
    by (simp add: scenario_defs tick_eval init_def speed_eq)
  have b: "candidate_after init rise_ticks = Some ORBIT \<and> speed (state_after rise_ticks) = Some 7"
    by (simp add: candidate_after_def scenario_defs tick_eval init_def speed_eq)
  have c: "candidate_after init (rise_ticks @ [hd hold_ticks]) = Some ZOOM_IN"
    by (simp add: candidate_after_def scenario_defs tick_eval init_def)
  from a b c show ?thesis by simp
qed

text \<open>
  Claim C5, amended. On a fresh recogniser, four complete snapshots (at least 21
  landmarks, no overflowing square) whose openness rises from 0.2 to 0.9 with stamps between 0.05 s and 0.1 s apart do not make the
  candidate Zoom-in on the fourth tick; the next tick is classified with speed
  \<open>0.7 / (u4 - u1)\<close>, above the threshold, and has candidate Zoom-in and no payload; when
  the two ticks after it are also classified with a speed above the threshold, the third
  of these ticks returns Zoom-in with no payload and Zoom-in is confirmed.
\<close>

theorem zoom_in_after_rise:
  assumes len: "21 \<le> length (landmarks h1)" "21 \<le> length (landmarks h2)"
      "21 \<le> length (landmarks h3)" "21 \<le> length (landmarks h4)"
      "21 \<le> length (landmarks h5)" "21 \<le> length (landmarks h6)" "21 \<le> length (landmarks h7)"
    and nov: "\<not> overflows (landmarks h2)" "\<not> overflows (landmarks h3)"
      "\<not> overflows (landmarks h7)"
    and o1: "hand_openness h1 = Inr 0.2" and o4: "hand_openness h4 = Inr 0.9"
    and o5: "hand_openness h5 = Inr v5" and o6: "hand_openness h6 = Inr v6"
    and span: "0.05 \<le> u4 - u1" "u4 - u1 \<le> 0.1"
    and later5: "0.05 \<le> u5 - u1" "ZOOM_SPEED_THRESHOLD < (v5 - 0.2) / (u5 - u1)"
    and later6: "0.05 \<le> u6 - u1" "ZOOM_SPEED_THRESHOLD < (v6 - 0.2) / (u6 - u1)"
  shows "\<exists>s4 outs4 s5 g5 s7 g6.
           run init [(Some h1, c1, u1), (Some h2, c2, u2), (Some h3, c3, u3), (Some h4, c4, u4)]
             = Inr (s4, outs4)
           \<and> candidate s4 \<noteq> ZOOM_IN
           \<and> speed s4 = Some ((0.9 - 0.2) / (u4 - u1))
           \<and> update s4 (Some h5) c5 u5 = Inr (s5, g5, None)
           \<and> candidate s5 = ZOOM_IN
           \<and> run s4 [(Some h5, c5, u5), (Some h6, c6, u6), (Some h7, c7, u7)]
               = Inr (s7, [(g5, None), (g6, None), (ZOOM_IN, None)])
           \<and> current_gesture s7 = ZOOM_IN"
proof -
  have "complete h2" "complete h3" "complete h7"
    using len(2,3,7) nov by (simp_all add: complete_def)
  then obtain v2 v3 v7 where o2: "hand_openness h2 = Inr v2" and o3: "hand_openness h3 = Inr v3"
    and o7: "hand_openness h7 = Inr v7" using hand_openness_eq by blast
  have i0: "unset_together init" by (rule init_unset_together)
  have h0: "openness_history init = []" and c0: "current_gesture init = IDLE"
    by (simp_all add: init_def)
  \<comment> \<open>ticks 1 to 4: fewer than four samples are buffered when each is classified\<close>
  from quiet_tick[OF i0 o1 len(1) speed_unknown, of c1 u1] h0 c0
  obtain s1 g1 p1 where u1: "update init (Some h1) c1 u1 = Inr (s1, g1, p1)"
    and i1: "unset_together s1" and h1: "openness_history s1 = [(u1, 0.2)]"
    and n1: "current_gesture s1 \<noteq> ZOOM_IN" "current_gesture s1 \<noteq> ZOOM_OUT"
    by (auto simp: deque_append_short)
  from quiet_tick[OF i1 o2 len(2) speed_unknown n1, of c2 u2] h1
  obtain s2 g2 p2 where u2: "update s1 (Some h2) c2 u2 = Inr (s2, g2, p2)"
    and i2: "unset_together s2" and h2: "openness_history s2 = [(u1, 0.2), (u2, v2)]"
    and n2: "current_gesture s2 \<noteq> ZOOM_IN" "current_gesture s2 \<noteq> ZOOM_OUT"
    by (auto simp: deque_append_short)
  from quiet_tick[OF i2 o3 len(3) speed_unknown n2, of c3 u3] h2
  obtain s3 g3 p3 where u3: "update s2 (Some h3) c3 u3 = Inr (s3, g3, p3)"
    and i3: "unset_together s3" and h3: "openness_history s3 = [(u1, 0.2), (u2, v2), (u3, v3)]"
    and n3: "current_gesture s3 \<noteq> ZOOM_IN" "current_gesture s3 \<noteq> ZOOM_OUT"
    by (auto simp: deque_append_short)
  from quiet_tick[OF i3 o4 len(4) speed_unknown n3, of c4 u4] h3
  obtain s4 g4 p4 where u4: "update s3 (Some h4) c4 u4 = Inr (s4, g4, p4)"
    and i4: "unset_together s4"
    and h4: "openness_history s4 = [(u1, 0.2), (u2, v2), (u3, v3), (u4, 0.9)]"
    and k4: "candidate s4 \<noteq> ZOOM_IN"
    by (auto simp: deque_append_short)
  have r4: "run init [(Some h1, c1, u1), (Some h2, c2, u2), (Some h3, c3, u3), (Some h4, c4, u4)]
             = Inr (s4, [(g1, p1), (g2, p2), (g3, p3), (g4, p4)])"
    by (simp add: u1 u2 u3 u4)
  \<comment> \<open>tick 5: the first tick classified with four samples\<close>
  have sp4: "speed s4 = Some ((0.9 - 0.2) / (u4 - u1))"
    by (rule speed_known[of s4 u1 _ "[(u2, v2), (u3, v3)]" u4, OF _ _ span(1)]) (simp_all add: h4)
  have w4: "ZOOM_SPEED_THRESHOLD < (0.9 - 0.2) / (u4 - u1)"
    using span by (intro rise_above_threshold) simp_all
  from zoom_in_tick[OF i4 o5 len(5) sp4 w4, of c5 u5] h4 k4
  obtain s5 g5 where u5: "update s4 (Some h5) c5 u5 = Inr (s5, g5, None)"
    and i5: "unset_together s5"
    and h5: "openness_history s5 = [(u1, 0.2), (u2, v2), (u3, v3), (u4, 0.9), (u5, v5)]"
    and k5: "candidate s5 = ZOOM_IN" and st5: "gesture_streak s5 = 1"
    by (auto simp: deque_append_short)
  \<comment> \<open>ticks 6 and 7: the speed is still above the threshold\<close>
  have sp5: "speed s5 = Some ((v5 - 0.2) / (u5 - u1))"
    by (rule speed_known[of s5 u1 _ "[(u2, v2), (u3, v3), (u4, 0.9)]" u5, OF _ _ later5(1)])
      (simp_all add: h5)
  note w5 = later5(2)
  from zoom_in_tick[OF i5 o6 len(6) sp5 w5, of c6 u6] h5 k5 st5
  obtain s6 g6 where u6: "update s5 (Some h6) c6 u6 = Inr (s6, g6, None)"
    and i6: "unset_together s6"
    and h6: "openness_history s6 = [(u1, 0.2), (u2, v2), (u3, v3), (u4, 0.9), (u5, v5), (u6, v6)]"
    and k6: "candidate s6 = ZOOM_IN" and st6: "gesture_streak s6 = 2"
    by (auto simp: deque_append_short)
  have sp6: "speed s6 = Some ((v6 - 0.2) / (u6 - u1))"
    by (rule speed_known[of s6 u1 _ "[(u2, v2), (u3, v3), (u4, 0.9), (u5, v5)]" u6, OF _ _ later6(1)])
      (simp_all add: h6)
  note w6 = later6(2)
  from zoom_in_tick[OF i6 o7 len(7) sp6 w6, of c7 u7] k6 st6
  obtain s7 g7 where u7: "update s6 (Some h7) c7 u7 = Inr (s7, g7, None)"
    and g7: "g7 = ZOOM_IN" and cur7: "current_gesture s7 = ZOOM_IN"
    by (auto simp: GESTURE_CONFIDENCE_FRAMES_def)
  have r7: "run s4 [(Some h5, c5, u5), (Some h6, c6, u6), (Some h7, c7, u7)]
               = Inr (s7, [(g5, None), (g6, None), (ZOOM_IN, None)])"
    by (simp add: u5 u6 u7 g7)
  from r4 k4 sp4 u5 k5 r7 cur7 show ?thesis by blast
qed

text \<open>Claim C5, witness: openness 0.2, 0.4, 0.7, 0.9 at 1.0, 1.03, 1.06, 1.1, then held at 0.9.\<close>

theorem zoom_in_after_rise_witness:
  "\<exists>s4 outs4 s5 g5 s7 g6.
     run init [(Some (sample_hand 0 0.8), 1, 1), (Some (sample_hand 0 1), 1.03, 1.03),
               (Some (sample_hand 0 1.3), 1.06, 1.06), (Some (sample_hand 0 1.5), 1.1, 1.1)]
       = Inr (s4, outs4)
     \<and> candidate s4 \<noteq> ZOOM_IN
     \<and> speed s4 = Some ((0.9 - 0.2) / (1.1 - 1))
     \<and> update s4 (Some (sample_hand 0 1.5)) 1.13 1.13 = Inr (s5, g5, None)
     \<and> candidate s5 = ZOOM_IN
     \<and> run s4 [(Some (sample_hand 0 1.5), 1.13, 1.13), (Some (sample_hand 0 1.5), 1.16, 1.16),
                (Some (sample_hand 0 1.5), 1.19, 1.19)]
         = Inr (s7, [(g5, None), (g6, None), (ZOOM_IN, None)])
     \<and> current_gesture s7 = ZOOM_IN"
proof (rule zoom_in_after_rise[where ?v5.0 = "0.9" and ?v6.0 = "0.9"])
  have "complete (sample_hand 0 1)" "complete (sample_hand 0 1.3)" "complete (sample_hand 0 1.5)"
    by (simp_all add: sample_hand_complete)
  then show "\<not> overflows (landmarks (sample_hand 0 1))"
    "\<not> overflows (landmarks (sample_hand 0 1.3))" "\<not> overflows (landmarks (sample_hand 0 1.5))"
    by (simp_all add: complete_def)
qed (simp_all add: sample_hand_length sample_hand_openness clamp01_def ZOOM_SPEED_THRESHOLD_def)

text \<open>
  Claim C9 (start-up cooldown), as stated, fails in one part: not every presence tick
  with a clock reading below 0.3 has candidate Idle. The zoom rules run before the
  cooldown gate: a hand that opens fast on a clock starting at 0 gets candidate Zoom-in on
  the tick at 0.13.
\<close>

theorem zoom_candidate_early:
  "clock (last early_ticks) < ORBIT_AFTER_ZOOM_COOLDOWN
   \<and> hd (map clock early_ticks) = 0
   \<and> candidate_after init early_ticks = Some ZOOM_IN"
  by (simp add: candidate_after_def scenario_defs tick_eval init_def clock_def)

text \<open>
  Claim C9, amended. A fresh recogniser has zoom-end timestamp 0. Its first presence
  tick, on a complete snapshot (at least 21 landmarks, no overflowing square) when the
  clock reads below 0.3, has candidate Idle and returns Idle with no payload. Over any
  run of absences and complete snapshots with clock readings in [0, 0.3), Orbit is impossible:
  no tick returns Orbit or a payload and the candidate is never Orbit; a further such
  tick on which no zoom rule fires has candidate Idle.
\<close>

theorem startup_cooldown:
  "zoom_end_time init = 0
   \<and> (21 \<le> length (landmarks h) \<longrightarrow> \<not> overflows (landmarks h) \<longrightarrow>
        c < ORBIT_AFTER_ZOOM_COOLDOWN \<longrightarrow>
        (\<exists>s'. update init (Some h) c u = Inr (s', IDLE, None) \<and> candidate s' = IDLE))
   \<and> ((\<forall>t \<in> set ticks. well_formed (fst t) \<and> 0 \<le> clock t
              \<and> clock t < ORBIT_AFTER_ZOOM_COOLDOWN) \<longrightarrow>
        (\<exists>s outs. run init ticks = Inr (s, outs) \<and> length outs = length ticks
           \<and> (ticks \<noteq> [] \<longrightarrow> candidate s \<noteq> ORBIT) \<and> current_gesture s \<noteq> ORBIT
           \<and> (\<forall>out \<in> set outs. fst out \<noteq> ORBIT \<and> snd out = None)
           \<and> (\<forall>h' c' u' v. 21 \<le> length (landmarks h') \<longrightarrow> hand_openness h' = Inr v \<longrightarrow>
                 0 \<le> c' \<longrightarrow> c' < ORBIT_AFTER_ZOOM_COOLDOWN \<longrightarrow> \<not> zoom_rule_fires s v \<longrightarrow>
                 (\<exists>s' g. update s (Some h') c' u' = Inr (s', g, None) \<and> candidate s' = IDLE))))"
proof -
  have "zoom_end_time init = 0" by (simp add: init_def)
  with first_tick_early[of h c u] early_run[of ticks] show ?thesis
    unfolding complete_def by blast
qed

text \<open>Claim C9, witness: an open hand drifting right at 0.1, 0.15, 0.2 and 0.25.\<close>

theorem startup_cooldown_witness:
  "zoom_end_time init = 0
   \<and> (\<exists>s'. update init (Some (sample_hand 0 2)) 0.1 0.1 = Inr (s', IDLE, None) \<and> candidate s' = IDLE)
   \<and> (\<exists>s outs. run init [(Some (sample_hand 0 2), 0.1, 0.1), (Some (sample_hand 0.1 2), 0.15, 0.15),
                           (Some (sample_hand 0.2 2), 0.2, 0.2), (Some (sample_hand 0.3 2), 0.25, 0.25)]
                   = Inr (s, outs)
        \<and> candidate s \<noteq> ORBIT \<and> current_gesture s \<noteq> ORBIT
        \<and> (\<forall>out \<in> set outs. fst out \<noteq> ORBIT \<and> snd out = None))"
proof -
  have "complete (sample_hand 0 2)" by (simp add: sample_hand_complete)
  then have len: "21 \<le> length (landmarks (sample_hand 0 2))"
    "\<not> overflows (landmarks (sample_hand 0 2))" by (simp_all add: complete_def)
  have c: "0.1 < ORBIT_AFTER_ZOOM_COOLDOWN" by (simp add: ORBIT_AFTER_ZOOM_COOLDOWN_def)
  have t: "\<forall>t \<in> set [(Some (sample_hand 0 2), 0.1::real, 0.1::real), (Some (sample_hand 0.1 2), 0.15, 0.15),
                       (Some (sample_hand 0.2 2), 0.2, 0.2), (Some (sample_hand 0.3 2), 0.25, 0.25)].
             well_formed (fst t) \<and> 0 \<le> clock t \<and> clock t < ORBIT_AFTER_ZOOM_COOLDOWN"
    by (simp add: well_formed_def sample_hand_complete clock_def ORBIT_AFTER_ZOOM_COOLDOWN_def)
  from startup_cooldown[of "sample_hand 0 2" "0.1" "0.1"
      "[(Some (sample_hand 0 2), 0.1, 0.1), (Some (sample_hand 0.1 2), 0.15, 0.15),
        (Some (sample_hand 0.2 2), 0.2, 0.2), (Some (sample_hand 0.3 2), 0.25, 0.25)]"] len c t
  show ?thesis by blast
qed

end
